theory Spec2Isabelle
  imports Complex_Main
begin

section \<open>Data model of \<open>motorlib/propellant.py\<close>\<close>

text \<open>
  A Python float is an IEEE 754 double. A finite double is modelled as the real number it
  denotes, and every arithmetic operation rounds its exact result to the nearest double,
  ties to even, as the hardware does. Every exception the source can raise is a value of
  \<open>py_error\<close>, and a method returns \<open>py_error + 'a\<close> with \<open>Inl\<close> the exception.
  The arguments \<open>pressure\<close> and \<open>kn\<close> and the stored properties are finite floats.
\<close>

datatype py_error =
    ValueError string
  | EmptySequenceError
  | KeyError string
  | IndexError
  | ZeroDivisionError
  | OverflowError
  | TypeError
  | NonFinite
  | ComplexArithmetic

text \<open>
  \<open>EmptySequenceError\<close> is the \<open>ValueError\<close> that the builtins \<open>min\<close> and \<open>max\<close> raise on
  an empty list. \<open>OverflowError\<close> is raised by the float power \<open>**\<close>, \<open>TypeError\<close> by an
  order comparison with a complex number. The last two are not Python exceptions: they mark
  the two places where the model stops following the computation. \<open>NonFinite\<close> marks a
  product, quotient, sum or difference that overflows in the middle of a formula, where
  Python goes on with an infinity; \<open>ComplexArithmetic\<close> marks further arithmetic on a
  complex number. A result that is a marker says that the run reaches that place and
  nothing about how Python ends it. The two zeros of the floats are one number here.
\<close>

record PropellantTab =
  minPressure :: real
  maxPressure :: real
  a :: real
  n :: real
  k :: real
  t :: real
  m :: real

record Propellant =
  name :: string
  density :: real
  tabs :: "PropellantTab list"

datatype SimAlertLevel = ERROR | WARNING

datatype SimAlertType = VALUE

datatype SimAlert = SimAlert SimAlertLevel SimAlertType string string

definition and_then :: "py_error + 'a \<Rightarrow> ('a \<Rightarrow> py_error + 'b) \<Rightarrow> py_error + 'b" where
  "and_then r f = (case r of Inl e \<Rightarrow> Inl e | Inr v \<Rightarrow> f v)"

subsection \<open>Double precision\<close>

text \<open>
  Rounding of a real number to the nearest integer, ties to the even one, and the exponent
  of the unit in the last place of a double near \<open>x\<close>: 53 significant bits, the least
  exponent \<open>-1074\<close> of the subnormal numbers.
\<close>

definition round_half_even :: "real \<Rightarrow> int" where
  "round_half_even y =
     (let f = \<lfloor>y\<rfloor>; r = y - of_int f
      in if r < 1 / 2 then f else if 1 / 2 < r then f + 1 else if even f then f else f + 1)"

definition ulp_exponent :: "real \<Rightarrow> int" where
  "ulp_exponent x = max (\<lfloor>log 2 \<bar>x\<bar>\<rfloor> - 52) (- 1074)"

definition double_round :: "real \<Rightarrow> real" where
  "double_round x =
     (if x = 0 then 0
      else of_int (round_half_even (x / 2 powi ulp_exponent x)) * 2 powi ulp_exponent x)"

text \<open>
  An exact result of magnitude \<open>overflow_threshold\<close> or more rounds to an infinity: the
  threshold lies half a unit in the last place above the largest double.
\<close>

definition overflow_threshold :: real where
  "overflow_threshold = (2 - 2 powi (- 53)) * 2 powi 1023"

text \<open>
  The difference of two floats where the source only compares its magnitude with floats:
  an infinite result is given as \<open>float_inf\<close>, a number above every double, which compares
  with every double as the infinity does.
\<close>

definition float_inf :: real where
  "float_inf = 2 powi 1024"

definition float_sub :: "real \<Rightarrow> real \<Rightarrow> real" where
  "float_sub x y =
     (if overflow_threshold \<le> \<bar>x - y\<bar> then sgn (x - y) * float_inf else double_round (x - y))"

subsection \<open>Arithmetic that can raise\<close>

text \<open>The operators \<open>+\<close>, \<open>-\<close>, \<open>*\<close> and \<open>/\<close> on floats inside a formula.\<close>

definition finite_float :: "real \<Rightarrow> py_error + real" where
  "finite_float x = (if overflow_threshold \<le> \<bar>x\<bar> then Inl NonFinite else Inr (double_round x))"

definition py_add :: "real \<Rightarrow> real \<Rightarrow> py_error + real" where
  "py_add x y = finite_float (x + y)"

definition py_sub :: "real \<Rightarrow> real \<Rightarrow> py_error + real" where
  "py_sub x y = finite_float (x - y)"

definition py_mul :: "real \<Rightarrow> real \<Rightarrow> py_error + real" where
  "py_mul x y = finite_float (x * y)"

definition py_div :: "real \<Rightarrow> real \<Rightarrow> py_error + real" where
  "py_div x y = (if y = 0 then Inl ZeroDivisionError else finite_float (x / y))"

text \<open>
  The result of \<open>**\<close> on two floats is a float or a complex number; of a complex number
  only the fact that it is one is kept.
\<close>

datatype py_number = PyFloat real | PyComplex

text \<open>
  The float power \<open>x ** y\<close>, after \<open>float_pow\<close> of CPython: an exponent zero gives one; a
  base zero raises for a negative exponent; a negative base with a non-integral exponent
  gives a complex number; a base of magnitude one gives one or minus one; everything else
  is left to the function \<open>pow\<close> of the C library on the magnitude of the base, with the
  sign restored for an odd integral exponent. The parameter \<open>libm_pow\<close> is that library
  function on a positive base other than one: \<open>None\<close> when the call ends in
  \<open>OverflowError\<close>, otherwise the double it returns. The complex power raises
  \<open>OverflowError\<close> when the power of the magnitude does.
\<close>

definition py_pow :: "(real \<Rightarrow> real \<Rightarrow> real option) \<Rightarrow> real \<Rightarrow> real \<Rightarrow> py_error + py_number" where
  "py_pow libm_pow x y =
     (if y = 0 then Inr (PyFloat 1)
      else if x = 0 then (if y < 0 then Inl ZeroDivisionError else Inr (PyFloat 0))
      else if x < 0 \<and> y \<noteq> of_int \<lfloor>y\<rfloor> then
        (case libm_pow \<bar>x\<bar> y of None \<Rightarrow> Inl OverflowError | Some len \<Rightarrow> Inr PyComplex)
      else if \<bar>x\<bar> = 1 then Inr (PyFloat (if x < 0 \<and> odd \<lfloor>y\<rfloor> then - 1 else 1))
      else
        (case libm_pow \<bar>x\<bar> y of
           None \<Rightarrow> Inl OverflowError
         | Some r \<Rightarrow> Inr (PyFloat (if x < 0 \<and> odd \<lfloor>y\<rfloor> then - r else r))))"

text \<open>A correctly rounded \<open>pow\<close>, the library used in the examples.\<close>

definition rounded_pow :: "real \<Rightarrow> real \<Rightarrow> real option" where
  "rounded_pow x y =
     (if overflow_threshold \<le> x powr y then None else Some (double_round (x powr y)))"

text \<open>A float operand of an arithmetic operator, and a float times the result of a power.\<close>

definition float_operand :: "py_number \<Rightarrow> py_error + real" where
  "float_operand v = (case v of PyFloat r \<Rightarrow> Inr r | PyComplex \<Rightarrow> Inl ComplexArithmetic)"

definition py_scale :: "real \<Rightarrow> py_number \<Rightarrow> py_error + py_number" where
  "py_scale x v =
     (case v of
        PyFloat r \<Rightarrow> and_then (py_mul x r) (\<lambda>z. Inr (PyFloat z))
      | PyComplex \<Rightarrow> Inr PyComplex)"

definition py_min :: "real list \<Rightarrow> py_error + real" where
  "py_min xs = (case xs of [] \<Rightarrow> Inl EmptySequenceError | x # rest \<Rightarrow> Inr (fold min rest x))"

definition py_max :: "real list \<Rightarrow> py_error + real" where
  "py_max xs = (case xs of [] \<Rightarrow> Inl EmptySequenceError | x # rest \<Rightarrow> Inr (fold max rest x))"

subsection \<open>Tab selection: \<open>getCombustionProperties\<close>\<close>

text \<open>
  The loop of \<open>getCombustionProperties\<close>. \<open>closest\<close> is \<open>None\<close> while the source's
  \<open>closest\<close> is still the empty dict; \<open>closestPressure\<close> starts at the float \<open>1e100\<close>,
  the double nearest to that power of ten. The two distances are float differences.
\<close>

fun combustion_loop ::
  "real \<Rightarrow> PropellantTab option \<Rightarrow> real \<Rightarrow> PropellantTab list \<Rightarrow> PropellantTab option" where
  "combustion_loop pressure closest closestPressure [] = closest"
| "combustion_loop pressure closest closestPressure (tab # rest) =
     (if minPressure tab < pressure \<and> pressure < maxPressure tab then Some tab
      else
        let (closest1, closestPressure1) =
              (if \<bar>float_sub pressure (minPressure tab)\<bar> < closestPressure
               then (Some tab, \<bar>float_sub pressure (minPressure tab)\<bar>)
               else (closest, closestPressure));
            (closest2, closestPressure2) =
              (if \<bar>float_sub pressure (maxPressure tab)\<bar> < closestPressure1
               then (Some tab, \<bar>float_sub pressure (maxPressure tab)\<bar>)
               else (closest1, closestPressure1))
        in combustion_loop pressure closest2 closestPressure2 rest)"

definition tab_properties :: "PropellantTab \<Rightarrow> real \<times> real \<times> real \<times> real \<times> real" where
  "tab_properties tab = (a tab, n tab, k tab, t tab, m tab)"

definition getCombustionProperties ::
  "Propellant \<Rightarrow> real \<Rightarrow> py_error + (real \<times> real \<times> real \<times> real \<times> real)" where
  "getCombustionProperties self pressure =
     (case combustion_loop pressure None (double_round (10 ^ 100)) (tabs self) of
        None \<Rightarrow> Inl (KeyError ''a'')
      | Some tab \<Rightarrow> Inr (tab_properties tab))"

subsection \<open>Burn rate and characteristic velocity\<close>

text \<open>The constant \<open>gasConstant\<close> of \<open>motorlib/constants.py\<close> is the parameter \<open>gasConstant\<close>.\<close>

text \<open>
  Lines 37 to 39: the characteristic velocity from the properties of one tab. A complex
  numerator divided by a float is a complex number, unless the float is zero.
\<close>

definition characteristic_velocity ::
  "(real \<Rightarrow> real \<Rightarrow> real option) \<Rightarrow> real \<Rightarrow> real \<Rightarrow> real \<Rightarrow> real \<Rightarrow> py_error + py_number" where
  "characteristic_velocity libm_pow gasConstant gamma temp molarMass =
     and_then (py_mul gamma gasConstant) (\<lambda>x1.
     and_then (py_div x1 molarMass) (\<lambda>x2.
     and_then (py_mul x2 temp) (\<lambda>x3.
     and_then (py_pow libm_pow x3 (1 / 2)) (\<lambda>num.
     and_then (py_add gamma 1) (\<lambda>s1.
     and_then (py_div 2 s1) (\<lambda>b.
     and_then (py_add gamma 1) (\<lambda>s2.
     and_then (py_sub gamma 1) (\<lambda>d.
     and_then (py_div s2 d) (\<lambda>e.
     and_then (py_pow libm_pow b e) (\<lambda>pw.
     and_then (float_operand pw) (\<lambda>pwf.
     and_then (py_pow libm_pow pwf (1 / 2)) (\<lambda>root.
     and_then (float_operand root) (\<lambda>rootf.
     and_then (py_mul gamma rootf) (\<lambda>denom.
       case num of
         PyFloat numf \<Rightarrow> and_then (py_div numf denom) (\<lambda>q. Inr (PyFloat q))
       | PyComplex \<Rightarrow> if denom = 0 then Inl ZeroDivisionError else Inr PyComplex))))))))))))))"

definition getCStar ::
  "(real \<Rightarrow> real \<Rightarrow> real option) \<Rightarrow> real \<Rightarrow> Propellant \<Rightarrow> real \<Rightarrow> py_error + py_number" where
  "getCStar libm_pow gasConstant self pressure =
     and_then (getCombustionProperties self pressure) (\<lambda>(_, _, gamma, temp, molarMass).
       characteristic_velocity libm_pow gasConstant gamma temp molarMass)"

text \<open>Line 44: the burn rate from the properties of one tab.\<close>

definition burn_rate ::
  "(real \<Rightarrow> real \<Rightarrow> real option) \<Rightarrow> real \<Rightarrow> real \<Rightarrow> real \<Rightarrow> py_error + py_number" where
  "burn_rate libm_pow ballA ballN pressure =
     and_then (py_pow libm_pow pressure ballN) (py_scale ballA)"

definition getBurnRate ::
  "(real \<Rightarrow> real \<Rightarrow> real option) \<Rightarrow> Propellant \<Rightarrow> real \<Rightarrow> py_error + py_number" where
  "getBurnRate libm_pow self pressure =
     and_then (getCombustionProperties self pressure) (\<lambda>(ballA, ballN, _, _, _).
       burn_rate libm_pow ballA ballN pressure)"

subsection \<open>Valid pressure range\<close>

definition getMinimumValidPressure :: "Propellant \<Rightarrow> py_error + real" where
  "getMinimumValidPressure self = py_min (map minPressure (tabs self))"

definition getMaximumValidPressure :: "Propellant \<Rightarrow> py_error + real" where
  "getMaximumValidPressure self = py_max (map maxPressure (tabs self))"

subsection \<open>Pressure from Kn\<close>

text \<open>
  Lines 50 to 54: the pressure one tab predicts for a given Kn, the operations in the
  order in which Python evaluates them.
\<close>

definition tab_pressure ::
  "(real \<Rightarrow> real \<Rightarrow> real option) \<Rightarrow> real \<Rightarrow> real \<Rightarrow> real \<Rightarrow> PropellantTab \<Rightarrow> py_error + py_number" where
  "tab_pressure libm_pow gasConstant kn dens tab =
     (let ballA = a tab; ballN = n tab; gamma = k tab; temp = t tab; molarMass = m tab
      in and_then (py_mul kn dens) (\<lambda>kd.
         and_then (py_mul kd ballA) (\<lambda>num.
         and_then (py_sub 1 ballN) (\<lambda>d1.
         and_then (py_div 1 d1) (\<lambda>exponent.
         and_then (py_div gasConstant molarMass) (\<lambda>rm.
         and_then (py_mul rm temp) (\<lambda>rt.
         and_then (py_div gamma rt) (\<lambda>g.
         and_then (py_add gamma 1) (\<lambda>s1.
         and_then (py_div 2 s1) (\<lambda>b.
         and_then (py_add gamma 1) (\<lambda>s2.
         and_then (py_sub gamma 1) (\<lambda>d2.
         and_then (py_div s2 d2) (\<lambda>e.
         and_then (py_pow libm_pow b e) (\<lambda>pw.
         and_then (float_operand pw) (\<lambda>pwf.
         and_then (py_mul g pwf) (\<lambda>gp.
         and_then (py_pow libm_pow gp (1 / 2)) (\<lambda>root.
         and_then (float_operand root) (\<lambda>denom.
         and_then (py_div num denom) (\<lambda>q.
         py_pow libm_pow q exponent)))))))))))))))))))"

text \<open>
  The loop of \<open>getPressureFromKn\<close>; \<open>tabPressures\<close> collects the rejected candidates as
  pairs of error and pressure. A complex \<open>tabPressure\<close> fails the first order comparison
  that is evaluated, at the latest the one of line 64, with \<open>TypeError\<close>. After the loop
  the list is sorted by the error with Python's stable sort, and the pressure of its first
  element is returned.
\<close>

fun pressure_loop ::
  "(real \<Rightarrow> real \<Rightarrow> real option) \<Rightarrow> real \<Rightarrow> Propellant \<Rightarrow> real \<Rightarrow> PropellantTab list \<Rightarrow>
     (real \<times> real) list \<Rightarrow> py_error + real" where
  "pressure_loop libm_pow gasConstant self kn [] tabPressures =
     (case sort_key fst tabPressures of
        [] \<Rightarrow> Inl IndexError
      | first # _ \<Rightarrow> Inr (snd first))"
| "pressure_loop libm_pow gasConstant self kn (tab # rest) tabPressures =
     and_then (tab_pressure libm_pow gasConstant kn (density self) tab) (\<lambda>number.
     and_then (getMinimumValidPressure self) (\<lambda>lowest.
       case number of
         PyComplex \<Rightarrow>
           if minPressure tab = lowest then Inl TypeError
           else and_then (getMaximumValidPressure self) (\<lambda>highest. Inl TypeError)
       | PyFloat tabPressure \<Rightarrow>
           if minPressure tab = lowest \<and> tabPressure < maxPressure tab then Inr tabPressure
           else
           and_then (getMaximumValidPressure self) (\<lambda>highest.
             if maxPressure tab = highest \<and> minPressure tab < tabPressure then Inr tabPressure
             else if minPressure tab < tabPressure \<and> tabPressure < maxPressure tab
             then Inr tabPressure
             else pressure_loop libm_pow gasConstant self kn rest
                    (tabPressures @
                       [(min \<bar>float_sub (minPressure tab) tabPressure\<bar>
                             \<bar>float_sub tabPressure (maxPressure tab)\<bar>,
                         tabPressure)]))))"

definition getPressureFromKn ::
  "(real \<Rightarrow> real \<Rightarrow> real option) \<Rightarrow> real \<Rightarrow> Propellant \<Rightarrow> real \<Rightarrow> py_error + real" where
  "getPressureFromKn libm_pow gasConstant self kn =
     pressure_loop libm_pow gasConstant self kn (tabs self) []"

subsection \<open>Alerts\<close>




section \<open>Notions used to state the properties\<close>

text \<open>
  The open window of a tab, and the distance from a pressure to the nearer of the two
  boundaries of a tab as the source computes it, from the two float differences.
\<close>

definition in_window :: "real \<Rightarrow> PropellantTab \<Rightarrow> bool" where
  "in_window p tab \<longleftrightarrow> minPressure tab < p \<and> p < maxPressure tab"

definition boundary_distance :: "real \<Rightarrow> PropellantTab \<Rightarrow> real" where
  "boundary_distance p tab =
     min \<bar>float_sub p (minPressure tab)\<bar> \<bar>float_sub p (maxPressure tab)\<bar>"

text \<open>
  \<open>first_such Q xs i\<close>: the element at index \<open>i\<close> is the first of the list that satisfies
  \<open>Q\<close>. \<open>first_least f xs i\<close>: the element at index \<open>i\<close> has the least value of \<open>f\<close>
  in the list and is the first one that has it.
\<close>

definition first_such :: "('a \<Rightarrow> bool) \<Rightarrow> 'a list \<Rightarrow> nat \<Rightarrow> bool" where
  "first_such Q xs i \<longleftrightarrow> i < length xs \<and> Q (xs ! i) \<and> (\<forall>j<i. \<not> Q (xs ! j))"

definition first_least :: "('a \<Rightarrow> real) \<Rightarrow> 'a list \<Rightarrow> nat \<Rightarrow> bool" where
  "first_least f xs i \<longleftrightarrow>
     i < length xs \<and> (\<forall>j<length xs. f (xs ! i) \<le> f (xs ! j)) \<and> (\<forall>j<i. f (xs ! i) < f (xs ! j))"

text \<open>
  The tab selection as the properties state it: the first tab with the pressure in its
  open window when there is one, otherwise the first tab of least boundary distance,
  provided some distance is below the float \<open>1e100\<close>.
\<close>

definition selected_tab :: "PropellantTab list \<Rightarrow> real \<Rightarrow> nat \<Rightarrow> bool" where
  "selected_tab ts p i \<longleftrightarrow>
     (if \<exists>tab \<in> set ts. in_window p tab then first_such (in_window p) ts i
      else (\<exists>tab \<in> set ts. boundary_distance p tab < double_round (10 ^ 100)) \<and>
           first_least (boundary_distance p) ts i)"

section \<open>Example propellants\<close>

definition adjacent_low :: PropellantTab where
  "adjacent_low = \<lparr>minPressure = 0, maxPressure = 100, a = 1, n = 1 / 4, k = 5 / 4, t = 2000, m = 20\<rparr>"

definition adjacent_high :: PropellantTab where
  "adjacent_high = \<lparr>minPressure = 100, maxPressure = 200, a = 2, n = 1 / 2, k = 3 / 2, t = 2500, m = 25\<rparr>"

definition adjacent_propellant :: Propellant where
  "adjacent_propellant = \<lparr>name = ''adjacent'', density = 1000, tabs = [adjacent_low, adjacent_high]\<rparr>"

definition empty_propellant :: Propellant where
  "empty_propellant = \<lparr>name = ''empty'', density = 1000, tabs = []\<rparr>"

section \<open>Configuration alerts: \<open>getErrors\<close>\<close>

text \<open>Decimal formatting of a non-negative integer, as \<open>'{}'.format\<close> prints it.\<close>

definition digit_char :: "nat \<Rightarrow> char" where
  "digit_char d = ''0123456789'' ! d"

fun str_nat :: "nat \<Rightarrow> string" where
  "str_nat i = (if i < 10 then [digit_char i] else str_nat (i div 10) @ [digit_char (i mod 10)])"

declare str_nat.simps [simp del]

definition same_pressures_alert :: "nat \<Rightarrow> SimAlert" where
  "same_pressures_alert tabId =
     SimAlert ERROR VALUE
       (''Tab #'' @ str_nat (tabId + 1) @ '' has the same minimum and maximum pressures.'')
       ''Propellant''"

definition reversed_limits_alert :: "nat \<Rightarrow> SimAlert" where
  "reversed_limits_alert tabId =
     SimAlert ERROR VALUE
       (''Tab #'' @ str_nat (tabId + 1) @ '' has reversed pressure limits.'')
       ''Propellant''"

definition overlap_alert :: "nat \<Rightarrow> nat \<Rightarrow> SimAlert" where
  "overlap_alert tabId otherTabId =
     SimAlert ERROR VALUE
       (''Tabs #'' @ str_nat (tabId + 1) @ '' and #'' @ str_nat (otherTabId + 1) @
        '' have overlapping ranges.'')
       ''Propellant''"

text \<open>The inner loop over \<open>enumerate(tabs)\<close>, for one outer tab.\<close>

fun overlap_loop ::
  "nat \<Rightarrow> PropellantTab \<Rightarrow> (nat \<times> PropellantTab) list \<Rightarrow> SimAlert list \<Rightarrow> SimAlert list" where
  "overlap_loop tabId tab [] errors = errors"
| "overlap_loop tabId tab ((otherTabId, otherTab) # rest) errors =
     overlap_loop tabId tab rest
       (if tabId \<noteq> otherTabId \<and>
           minPressure otherTab < maxPressure tab \<and> maxPressure tab < maxPressure otherTab
        then errors @ [overlap_alert tabId otherTabId]
        else errors)"

text \<open>The outer loop over \<open>enumerate(tabs)\<close>.\<close>

fun errors_loop ::
  "PropellantTab list \<Rightarrow> (nat \<times> PropellantTab) list \<Rightarrow> SimAlert list \<Rightarrow> SimAlert list" where
  "errors_loop allTabs [] errors = errors"
| "errors_loop allTabs ((tabId, tab) # rest) errors =
     (let errors1 = (if maxPressure tab = minPressure tab
                     then errors @ [same_pressures_alert tabId] else errors);
          errors2 = (if maxPressure tab < minPressure tab
                     then errors1 @ [reversed_limits_alert tabId] else errors1);
          errors3 = overlap_loop tabId tab (enumerate 0 allTabs) errors2
      in errors_loop allTabs rest errors3)"

definition getErrors :: "Propellant \<Rightarrow> SimAlert list" where
  "getErrors self = errors_loop (tabs self) (enumerate 0 (tabs self)) []"

section \<open>Notions used to state the alert properties\<close>

definition is_digit :: "char \<Rightarrow> bool" where
  "is_digit c \<longleftrightarrow> c \<in> set ''0123456789''"

definition overlaps :: "PropellantTab \<Rightarrow> PropellantTab \<Rightarrow> bool" where
  "overlaps tab otherTab \<longleftrightarrow>
     minPressure otherTab < maxPressure tab \<and> maxPressure tab < maxPressure otherTab"

text \<open>
  The alerts that the tab at index \<open>i\<close> gives rise to: one when it is degenerate, one when
  it is reversed, and one for each other index \<open>j\<close> whose tab it overlaps.
\<close>

definition tab_alerts :: "PropellantTab list \<Rightarrow> nat \<Rightarrow> SimAlert list" where
  "tab_alerts ts i =
     (if maxPressure (ts ! i) = minPressure (ts ! i) then [same_pressures_alert i] else []) @
     (if maxPressure (ts ! i) < minPressure (ts ! i) then [reversed_limits_alert i] else []) @
     concat (map (\<lambda>j. if i \<noteq> j \<and> overlaps (ts ! i) (ts ! j) then [overlap_alert i j] else [])
               [0..<length ts])"

section \<open>Notions used to state the pressure-from-Kn property\<close>

text \<open>
  The three acceptance tests of \<open>getPressureFromKn\<close>, for a tab of the list \<open>ts\<close> and its
  computed pressure: the tab has the least \<open>minPressure\<close> of all and the pressure is below
  its \<open>maxPressure\<close>; or it has the greatest \<open>maxPressure\<close> of all and the pressure is
  above its \<open>minPressure\<close>; or the pressure is strictly inside its window.
\<close>

definition accepted :: "PropellantTab list \<Rightarrow> PropellantTab \<Rightarrow> real \<Rightarrow> bool" where
  "accepted ts tab pressure \<longleftrightarrow>
     (\<forall>other \<in> set ts. minPressure tab \<le> minPressure other) \<and> pressure < maxPressure tab \<or>
     (\<forall>other \<in> set ts. maxPressure other \<le> maxPressure tab) \<and> minPressure tab < pressure \<or>
     minPressure tab < pressure \<and> pressure < maxPressure tab"

text \<open>
  The distance of a computed pressure to the nearer boundary of its tab, as line 66
  computes it from two float differences.
\<close>

definition candidate_distance :: "real \<Rightarrow> PropellantTab \<Rightarrow> real" where
  "candidate_distance pressure tab =
     min \<bar>float_sub (minPressure tab) pressure\<bar> \<bar>float_sub pressure (maxPressure tab)\<bar>"

text \<open>
  Further example inputs, all within the declared ranges of the properties. The values of
  \<open>k\<close>, \<open>t\<close> and \<open>m\<close> are chosen such that with the gas constant 8314 every intermediate
  result of the pressure formula is a power of two.
\<close>

definition dyadic_tab :: PropellantTab where
  "dyadic_tab =
     \<lparr>minPressure = 0, maxPressure = 10, a = 1, n = 0, k = 3, t = 1536, m = 4157 / 64\<rparr>"


definition single_propellant :: Propellant where
  "single_propellant =
     \<lparr>name = ''single'', density = 1024, tabs = [dyadic_tab\<lparr>maxPressure := 1073741824\<rparr>]\<rparr>"



definition quarter_propellant :: Propellant where
  "quarter_propellant =
     \<lparr>name = ''quarter'', density = 1024, tabs = [dyadic_tab\<lparr>maxPressure := 100, n := 1 / 4\<rparr>]\<rparr>"

section \<open>The perimeter query of \<open>mathlib/_find_perimeter.py\<close>\<close>

text \<open>
  A numpy array is its shape and its elements in row-major order; the rank \<open>ndim\<close> is the
  length of the shape. The elements and the lengths of this section are real numbers with
  exact arithmetic.
\<close>

record ndarray =
  shape :: "nat list"
  elements :: "real list"

definition ndim :: "ndarray \<Rightarrow> nat" where
  "ndim img = length (shape img)"

text \<open>Indexing the shape tuple raises \<open>IndexError\<close> out of range.\<close>

definition shape_at :: "ndarray \<Rightarrow> nat \<Rightarrow> py_error + nat" where
  "shape_at img i = (if i < length (shape img) then Inr (shape img ! i) else Inl IndexError)"

definition element_at :: "ndarray \<Rightarrow> nat \<Rightarrow> nat \<Rightarrow> real" where
  "element_at img r c = elements img ! (r * (shape img ! 1) + c)"

subsection \<open>Marching squares\<close>

datatype edge = Top | Bottom | Left | Right

text \<open>
  Modelled from the spec: the case table of marching squares, which \<open>_get_perimeter\<close> of
  the missing module \<open>_find_perimeter_cy\<close> implements. The arguments say whether the upper
  left, upper right, lower left and lower right corner of a cell are above the level, and
  whether the average of the four corners is; the result is the list of segments, each
  between two edges of the cell. In the two saddle cases the average decides which
  diagonal pair of corners stays connected.
\<close>

fun marching_table :: "bool \<Rightarrow> bool \<Rightarrow> bool \<Rightarrow> bool \<Rightarrow> bool \<Rightarrow> (edge \<times> edge) list" where
  "marching_table False False False False centre = []"
| "marching_table True False False False centre = [(Top, Left)]"
| "marching_table False True False False centre = [(Right, Top)]"
| "marching_table True True False False centre = [(Right, Left)]"
| "marching_table False False True False centre = [(Left, Bottom)]"
| "marching_table True False True False centre = [(Top, Bottom)]"
| "marching_table False True True False centre =
     (if centre then [(Left, Top), (Right, Bottom)] else [(Right, Top), (Left, Bottom)])"
| "marching_table True True True False centre = [(Right, Bottom)]"
| "marching_table False False False True centre = [(Bottom, Right)]"
| "marching_table True False False True centre =
     (if centre then [(Top, Right), (Bottom, Left)] else [(Top, Left), (Bottom, Right)])"
| "marching_table False True False True centre = [(Bottom, Top)]"
| "marching_table True True False True centre = [(Bottom, Left)]"
| "marching_table False False True True centre = [(Left, Right)]"
| "marching_table True False True True centre = [(Top, Right)]"
| "marching_table False True True True centre = [(Left, Top)]"
| "marching_table True True True True centre = []"

text \<open>
  Modelled from the spec: the crossing of the level on an edge by linear interpolation,
  \<open>pos = start + (level - vStart) / (vEnd - vStart) * (end - start)\<close>, and the midpoint
  of the edge when both ends have the same value.
\<close>

definition interpolate :: "real \<Rightarrow> real \<Rightarrow> real \<Rightarrow> real \<Rightarrow> real \<Rightarrow> real" where
  "interpolate level start end vStart vEnd =
     (if vStart = vEnd then (start + end) / 2
      else start + (level - vStart) / (vEnd - vStart) * (end - start))"

text \<open>
  Modelled from the spec: the point, as row and column, where the contour crosses an edge
  of the cell whose upper left corner is at row \<open>r0\<close> and column \<open>c0\<close>.
\<close>

fun edge_point ::
  "real \<Rightarrow> nat \<Rightarrow> nat \<Rightarrow> real \<Rightarrow> real \<Rightarrow> real \<Rightarrow> real \<Rightarrow> edge \<Rightarrow> real \<times> real" where
  "edge_point level r0 c0 ul ur ll lr Top =
     (real r0, interpolate level (real c0) (real c0 + 1) ul ur)"
| "edge_point level r0 c0 ul ur ll lr Bottom =
     (real r0 + 1, interpolate level (real c0) (real c0 + 1) ll lr)"
| "edge_point level r0 c0 ul ur ll lr Left =
     (interpolate level (real r0) (real r0 + 1) ul ll, real c0)"
| "edge_point level r0 c0 ul ur ll lr Right =
     (interpolate level (real r0) (real r0 + 1) ur lr, real c0 + 1)"

definition segment_length :: "real \<times> real \<Rightarrow> real \<times> real \<Rightarrow> real" where
  "segment_length p q = sqrt ((fst p - fst q)\<^sup>2 + (snd p - snd q)\<^sup>2)"

text \<open>
  Modelled from the spec: the summed Euclidean length of the segments of one cell, with
  unit grid spacing on both axes.
\<close>

definition cell_perimeter :: "ndarray \<Rightarrow> real \<Rightarrow> nat \<Rightarrow> nat \<Rightarrow> real" where
  "cell_perimeter img level r0 c0 =
     (let ul = element_at img r0 c0;
          ur = element_at img r0 (c0 + 1);
          ll = element_at img (r0 + 1) c0;
          lr = element_at img (r0 + 1) (c0 + 1);
          centre = level < (ul + ur + ll + lr) / 4
      in sum_list
           (map (\<lambda>(e1, e2). segment_length (edge_point level r0 c0 ul ur ll lr e1)
                                            (edge_point level r0 c0 ul ur ll lr e2))
              (marching_table (level < ul) (level < ur) (level < ll) (level < lr) centre)))"

text \<open>
  Modelled from the spec: \<open>_get_perimeter\<close> of the missing module \<open>_find_perimeter_cy\<close>,
  the sum of the segment lengths over the \<open>(H - 1) * (W - 1)\<close> cells in row-major order.
\<close>

definition get_perimeter :: "ndarray \<Rightarrow> real \<Rightarrow> real" where
  "get_perimeter img level =
     sum_list (map (\<lambda>r0. sum_list (map (\<lambda>c0. cell_perimeter img level r0 c0)
                                         [0..<shape img ! 1 - 1]))
                 [0..<shape img ! 0 - 1])"

text \<open>Lines 70 to 74 of \<open>find_perimeter\<close>.\<close>

definition find_perimeter :: "ndarray \<Rightarrow> real \<Rightarrow> py_error + real" where
  "find_perimeter img level =
     and_then (shape_at img 0) (\<lambda>rows.
       if rows < 2 then Inl (ValueError ''Input array must be at least 2x2.'')
       else
     and_then (shape_at img 1) (\<lambda>cols.
       if cols < 2 then Inl (ValueError ''Input array must be at least 2x2.'')
       else if ndim img \<noteq> 2 then Inl (ValueError ''Only 2D arrays are supported.'')
       else Inr (get_perimeter img level)))"

text \<open>The raster of zeros with the element at row \<open>cr\<close> and column \<open>cc\<close> set to one.\<close>

definition single_one_raster :: "nat \<Rightarrow> nat \<Rightarrow> nat \<Rightarrow> nat \<Rightarrow> ndarray" where
  "single_one_raster H W cr cc =
     \<lparr>shape = [H, W], elements = (replicate (H * W) 0)[cr * W + cc := 1]\<rparr>"


section \<open>Rounding to double precision\<close>

lemma round_half_even_near:
  assumes "\<bar>y - of_int N\<bar> < 1 / 2"
  shows "round_half_even y = N"
proof (cases "of_int N \<le> y")
  case True
  with assms have "\<lfloor>y\<rfloor> = N" by (intro floor_unique) auto
  with assms True show ?thesis by (simp add: round_half_even_def Let_def)
next
  case False
  with assms have f: "\<lfloor>y\<rfloor> = N - 1" by (intro floor_unique) auto
  have "1 / 2 < y - of_int (N - 1)" using assms False by simp
  with f show ?thesis by (simp add: round_half_even_def Let_def)
qed

lemma round_half_even_of_int: "round_half_even (of_int N) = N"
  by (rule round_half_even_near) simp

lemma floor_log2_eq:
  assumes "2 powi E \<le> x" and "x < 2 powi (E + 1)"
  shows "\<lfloor>log 2 x\<rfloor> = E"
proof -
  have pos: "0 < x" using assms(1) by (smt (verit) zero_less_power_int)
  have "2 powr (of_int E) = (2 :: real) powi E" "2 powr (of_int (E + 1)) = (2 :: real) powi (E + 1)"
    by (simp_all add: powr_real_of_int' del: of_int_add)
  with assms have "2 powr (of_int E) \<le> x \<and> x < 2 powr (of_int E + 1)" by simp
  with pos show ?thesis by (simp add: floor_log_eq_powr_iff)
qed

text \<open>
  The rounding of a number between two powers of two, from the integer nearest to its
  quotient by the unit in the last place.
\<close>

lemma double_round_eval:
  assumes "2 powi E \<le> \<bar>x\<bar>" and "\<bar>x\<bar> < 2 powi (E + 1)" and "- 1022 \<le> E"
    and "\<bar>x / 2 powi (E - 52) - of_int N\<bar> < 1 / 2"
  shows "double_round x = of_int N * 2 powi (E - 52)"
proof -
  have nz: "x \<noteq> 0" using assms(1) by (smt (verit) zero_less_power_int abs_zero)
  have "\<lfloor>log 2 \<bar>x\<bar>\<rfloor> = E" using assms(1,2) by (rule floor_log2_eq)
  then have u: "ulp_exponent x = E - 52" using assms(3) by (simp add: ulp_exponent_def)
  have "round_half_even (x / 2 powi (E - 52)) = N" using assms(4) by (rule round_half_even_near)
  with nz u show ?thesis by (simp add: double_round_def)
qed

text \<open>A number with at most 53 significant bits and an exponent in range is a double.\<close>

lemma double_round_exact:
  assumes "x = of_int N * 2 powi e" and "\<bar>N\<bar> < 2 ^ 53" and "- 1074 \<le> e"
  shows "double_round x = x"
proof (cases "x = 0")
  case True
  then show ?thesis by (simp add: double_round_def)
next
  case False
  define u where "u = ulp_exponent x"
  have "\<bar>x\<bar> = of_int \<bar>N\<bar> * 2 powi e" by (simp add: assms(1) abs_mult)
  also have "\<dots> < 2 ^ 53 * 2 powi e"
  proof -
    have "(of_int \<bar>N\<bar> :: real) < of_int (2 ^ 53)" using assms(2) by (simp only: of_int_less_iff)
    then show ?thesis by simp
  qed
  also have "\<dots> = 2 powi (53 + e)" by (simp add: power_int_add)
  finally have up: "\<bar>x\<bar> < 2 powi (53 + e)" .
  have "log 2 \<bar>x\<bar> < of_int (53 + e)"
  proof -
    have "(2 :: real) powr of_int (53 + e) = 2 powi (53 + e)"
      by (simp add: powr_real_of_int' del: of_int_add)
    with up have "\<bar>x\<bar> < 2 powr of_int (53 + e)" by (simp del: of_int_add)
    with False show ?thesis by (simp add: log_less_iff del: of_int_add)
  qed
  then have "\<lfloor>log 2 \<bar>x\<bar>\<rfloor> < 53 + e" by (simp only: floor_less_iff)
  then have ue: "u \<le> e" using assms(3) by (simp add: u_def ulp_exponent_def)
  define M where "M = N * 2 ^ nat (e - u)"
  have "(2 :: real) powi e = 2 powi (e - u) * 2 powi u" by (simp add: power_int_add[symmetric])
  also have "(2 :: real) powi (e - u) = 2 ^ nat (e - u)" using ue by (simp add: power_int_def)
  finally have x: "x = of_int M * 2 powi u" by (simp add: assms(1) M_def)
  then have "x / 2 powi u = of_int M" by simp
  then have r: "round_half_even (x / 2 powi u) = M" by (simp only: round_half_even_of_int)
  have "double_round x = of_int (round_half_even (x / 2 powi u)) * 2 powi u"
    using False by (simp add: double_round_def u_def)
  also have "\<dots> = of_int M * 2 powi u" by (simp only: r)
  also have "\<dots> = x" by (rule x[symmetric])
  finally show ?thesis .
qed

lemma double_round_of_int: "\<bar>N\<bar> < 2 ^ 53 \<Longrightarrow> double_round (of_int N) = of_int N"
  by (rule double_round_exact[where e = 0]) simp_all

lemma below_overflow: "\<bar>x\<bar> < 2 ^ 1023 \<Longrightarrow> \<not> overflow_threshold \<le> \<bar>x\<bar>"
  by (simp add: overflow_threshold_def)

lemma finite_float_exact:
  assumes "x = of_int N * 2 powi e" and "\<bar>N\<bar> < 2 ^ 53" and "- 1074 \<le> e" and "\<bar>x\<bar> < 2 ^ 1023"
  shows "finite_float x = Inr x"
  using double_round_exact[OF assms(1-3)] below_overflow[OF assms(4)]
  by (simp add: finite_float_def)

lemma float_sub_exact:
  assumes "x - y = of_int N * 2 powi e" and "\<bar>N\<bar> < 2 ^ 53" and "- 1074 \<le> e"
    and "\<bar>x - y\<bar> < 2 ^ 1023"
  shows "float_sub x y = x - y"
  using double_round_exact[OF assms(1-3)] below_overflow[OF assms(4)]
  by (simp add: float_sub_def)

lemma float_sub_eval:
  assumes "2 powi E \<le> \<bar>x - y\<bar>" and "\<bar>x - y\<bar> < 2 powi (E + 1)" and "- 1022 \<le> E" and "E \<le> 1022"
    and "\<bar>(x - y) / 2 powi (E - 52) - of_int N\<bar> < 1 / 2"
  shows "float_sub x y = of_int N * 2 powi (E - 52)"
proof -
  have "(2 :: real) powi (E + 1) \<le> 2 powi 1023" using assms(4) by (intro power_int_increasing) simp_all
  with assms(2) have "\<bar>x - y\<bar> < 2 ^ 1023" by simp
  then have "\<not> overflow_threshold \<le> \<bar>x - y\<bar>" by (rule below_overflow)
  with double_round_eval[OF assms(1,2,3,5)] show ?thesis by (simp add: float_sub_def)
qed

text \<open>The float \<open>1e100\<close>, written as a power and as a numeral.\<close>

lemma sentinel_value:
  "double_round (10 ^ 100) =
     10000000000000000159028911097599180468360808563945281389781327557747838772170381060813469985856815104"
  using double_round_eval[of 332 "10 ^ 100" 5147557589468029] by simp

lemma sentinel_numeral:
  "double_round
     10000000000000000000000000000000000000000000000000000000000000000000000000000000000000000000000000000 =
     10000000000000000159028911097599180468360808563945281389781327557747838772170381060813469985856815104"
  using sentinel_value by simp

section \<open>Pressure warnings\<close>




section \<open>Tab selection\<close>

lemma first_such_Cons:
  "first_such Q (x # xs) i \<longleftrightarrow> (if Q x then i = 0 else \<exists>j. i = Suc j \<and> first_such Q xs j)"
  unfolding first_such_def
  by (cases i) (auto simp: less_Suc_eq_0_disj nth_Cons')

lemma first_least_head:
  "\<forall>y \<in> set xs. f x \<le> f y \<Longrightarrow> first_least f (x # xs) 0"
  unfolding first_least_def by (auto simp: nth_Cons' )

lemma first_least_tail:
  "first_least f xs i \<Longrightarrow> f (xs ! i) < f x \<Longrightarrow> first_least f (x # xs) (Suc i)"
  unfolding first_least_def by (auto simp: less_Suc_eq_0_disj nth_Cons')

lemma combustion_loop_step:
  "\<not> in_window p tab \<Longrightarrow>
   combustion_loop p c cp (tab # rest) =
     combustion_loop p (if boundary_distance p tab < cp then Some tab else c)
       (min cp (boundary_distance p tab)) rest"
  by (auto simp: in_window_def boundary_distance_def Let_def min_def intro!: arg_cong2[where f="\<lambda>x y. combustion_loop p x y rest"])

lemma combustion_loop_window:
  "\<exists>tab \<in> set ts. in_window p tab \<Longrightarrow>
   \<exists>i. first_such (in_window p) ts i \<and> combustion_loop p c cp ts = Some (ts ! i)"
proof (induction ts arbitrary: c cp)
  case Nil
  then show ?case by simp
next
  case (Cons tab rest)
  show ?case
  proof (cases "in_window p tab")
    case True
    then have "first_such (in_window p) (tab # rest) 0" by (simp add: first_such_Cons)
    moreover have "combustion_loop p c cp (tab # rest) = Some tab"
      using True by (simp add: in_window_def)
    ultimately show ?thesis by force
  next
    case False
    with Cons.prems have ex: "\<exists>tab \<in> set rest. in_window p tab" by auto
    obtain c2 cp2 where step: "combustion_loop p c cp (tab # rest) = combustion_loop p c2 cp2 rest"
      using combustion_loop_step[OF False] by blast
    from Cons.IH[OF ex, of c2 cp2] obtain i where
      "first_such (in_window p) rest i" "combustion_loop p c2 cp2 rest = Some (rest ! i)" by blast
    then have "first_such (in_window p) (tab # rest) (Suc i) \<and>
      combustion_loop p c cp (tab # rest) = Some ((tab # rest) ! Suc i)"
      using False step by (simp add: first_such_Cons)
    then show ?thesis by blast
  qed
qed

lemma combustion_loop_far:
  "\<forall>tab \<in> set ts. \<not> in_window p tab \<and> cp \<le> boundary_distance p tab \<Longrightarrow>
   combustion_loop p c cp ts = c"
proof (induction ts arbitrary: c cp)
  case Nil
  then show ?case by simp
next
  case (Cons tab rest)
  have out: "\<not> in_window p tab" and far: "cp \<le> boundary_distance p tab"
    using Cons.prems by auto
  have "combustion_loop p c cp (tab # rest) = combustion_loop p c cp rest"
    using far by (simp only: combustion_loop_step[OF out]) (simp add: min_def)
  also have "\<dots> = c" using Cons.prems by (intro Cons.IH) auto
  finally show ?case .
qed

lemma combustion_loop_closest:
  "\<forall>tab \<in> set ts. \<not> in_window p tab \<Longrightarrow> \<exists>tab \<in> set ts. boundary_distance p tab < cp \<Longrightarrow>
   \<exists>i. first_least (boundary_distance p) ts i \<and> boundary_distance p (ts ! i) < cp \<and> combustion_loop p c cp ts = Some (ts ! i)"
proof (induction ts arbitrary: c cp)
  case Nil
  then show ?case by simp
next
  case (Cons tab rest)
  let ?d = "boundary_distance p"
  let ?c2 = "if ?d tab < cp then Some tab else c"
  let ?cp2 = "min cp (?d tab)"
  have out: "\<not> in_window p tab" and outs: "\<forall>tab \<in> set rest. \<not> in_window p tab"
    using Cons.prems(1) by auto
  have step: "combustion_loop p c cp (tab # rest) = combustion_loop p ?c2 ?cp2 rest"
    using out by (rule combustion_loop_step)
  show ?case
  proof (cases "\<exists>x \<in> set rest. ?d x < ?cp2")
    case True
    from Cons.IH[OF outs True, of ?c2] obtain i where
      i: "first_least ?d rest i" "?d (rest ! i) < ?cp2" "combustion_loop p ?c2 ?cp2 rest = Some (rest ! i)"
      by blast
    then have "first_least ?d (tab # rest) (Suc i)"
      by (intro first_least_tail) auto
    with i step show ?thesis by (intro exI[of _ "Suc i"]) auto
  next
    case False
    then have far: "\<forall>x \<in> set rest. \<not> in_window p x \<and> ?cp2 \<le> ?d x"
      using outs by (auto simp: not_less)
    have near: "?d tab < cp" using Cons.prems(2) far by (auto simp: min_def split: if_splits)
    have "combustion_loop p ?c2 ?cp2 rest = ?c2" using far by (rule combustion_loop_far)
    moreover have "first_least ?d (tab # rest) 0"
      using far near by (intro first_least_head) (auto simp: min_def)
    ultimately show ?thesis using step near by (intro exI[of _ 0]) auto
  qed
qed

lemma first_such_unique: "first_such Q xs i \<Longrightarrow> first_such Q xs j \<Longrightarrow> i = j"
  unfolding first_such_def by (meson linorder_neqE_nat)

lemma first_least_unique: "first_least f xs i \<Longrightarrow> first_least f xs j \<Longrightarrow> i = j"
  unfolding first_least_def by (metis linorder_neqE_nat not_less)

lemma getCombustionProperties_window:
  assumes "\<exists>tab \<in> set (tabs self). in_window p tab"
  shows "\<exists>i. first_such (in_window p) (tabs self) i \<and>
             getCombustionProperties self p = Inr (tab_properties (tabs self ! i))"
proof -
  from combustion_loop_window[OF assms, of None "double_round (10 ^ 100)"] obtain i where
    "first_such (in_window p) (tabs self) i"
    "combustion_loop p None (double_round (10 ^ 100)) (tabs self) = Some (tabs self ! i)" by blast
  then show ?thesis by (auto simp: getCombustionProperties_def)
qed

lemma getCombustionProperties_closest:
  assumes "\<forall>tab \<in> set (tabs self). \<not> in_window p tab"
    and "\<exists>tab \<in> set (tabs self). boundary_distance p tab < double_round (10 ^ 100)"
  shows "\<exists>i. first_least (boundary_distance p) (tabs self) i \<and>
             getCombustionProperties self p = Inr (tab_properties (tabs self ! i))"
proof -
  from combustion_loop_closest[OF assms, of None] obtain i where
    "first_least (boundary_distance p) (tabs self) i"
    "combustion_loop p None (double_round (10 ^ 100)) (tabs self) = Some (tabs self ! i)" by blast
  then show ?thesis by (auto simp: getCombustionProperties_def)
qed

lemma getCombustionProperties_far:
  assumes "\<forall>tab \<in> set (tabs self). \<not> in_window p tab \<and> double_round (10 ^ 100) \<le> boundary_distance p tab"
  shows "getCombustionProperties self p = Inl (KeyError ''a'')"
  using combustion_loop_far[OF assms, of None] by (simp add: getCombustionProperties_def)

lemma getCombustionProperties_selected:
  assumes "selected_tab (tabs self) p i"
  shows "getCombustionProperties self p = Inr (tab_properties (tabs self ! i))"
proof (cases "\<exists>tab \<in> set (tabs self). in_window p tab")
  case True
  with assms have "first_such (in_window p) (tabs self) i" by (simp add: selected_tab_def)
  with getCombustionProperties_window[OF True] show ?thesis
    by (auto dest: first_such_unique)
next
  case False
  with assms have near: "\<exists>tab \<in> set (tabs self). boundary_distance p tab < double_round (10 ^ 100)"
    and i: "first_least (boundary_distance p) (tabs self) i"
    by (simp_all add: selected_tab_def)
  from False have "\<forall>tab \<in> set (tabs self). \<not> in_window p tab" by simp
  from getCombustionProperties_closest[OF this near] i show ?thesis
    by (auto dest: first_least_unique)
qed

text \<open>
  Claim C1, as amended. The distances are the ones the source computes: the magnitude of
  the float difference between the pressure and a boundary. Take a propellant and a
  pressure such that some tab has the pressure strictly between its \<open>minPressure\<close> and
  \<open>maxPressure\<close> or has a boundary whose computed distance to the pressure is below the
  float \<open>1e100\<close>. When the pressure lies strictly inside the window of some tab,
  \<open>getCombustionProperties\<close> returns the properties of the first such tab in stored
  order. Otherwise it returns the properties of the tab with the least computed distance
  to its nearer boundary, the first in stored order among equals.
\<close>

theorem tab_selection_open_window:
  assumes "\<exists>tab \<in> set (tabs self).
             minPressure tab < p \<and> p < maxPressure tab \<or>
             boundary_distance p tab < double_round (10 ^ 100)"
  shows "\<exists>i. (if \<exists>tab \<in> set (tabs self). minPressure tab < p \<and> p < maxPressure tab
              then first_such (\<lambda>tab. minPressure tab < p \<and> p < maxPressure tab) (tabs self) i
              else first_least (boundary_distance p) (tabs self) i) \<and>
             getCombustionProperties self p = Inr (tab_properties (tabs self ! i))"
proof -
  have w: "in_window p = (\<lambda>tab. minPressure tab < p \<and> p < maxPressure tab)"
    by (simp add: in_window_def fun_eq_iff)
  show ?thesis
  proof (cases "\<exists>tab \<in> set (tabs self). in_window p tab")
    case True
    from getCombustionProperties_window[OF True] True show ?thesis unfolding w by auto
  next
    case False
    then have out: "\<forall>tab \<in> set (tabs self). \<not> in_window p tab" by simp
    with assms have near: "\<exists>tab \<in> set (tabs self). boundary_distance p tab < double_round (10 ^ 100)"
      unfolding w by auto
    from getCombustionProperties_closest[OF out near] False show ?thesis unfolding w by auto
  qed
qed

lemma first_least_pair:
  "first_least f [x, y] i \<longleftrightarrow> (if f x \<le> f y then i = 0 else i = 1)"
  unfolding first_least_def by (cases i) (auto simp: less_Suc_eq nth_Cons' numeral_2_eq_2)

lemma first_such_pair:
  "first_such Q [x, y] i \<longleftrightarrow> (if Q x then i = 0 else Q y \<and> i = 1)"
proof -
  have "\<not> first_such Q [] j" for j by (simp add: first_such_def)
  then show ?thesis by (auto simp: first_such_Cons)
qed

text \<open>
  The computed distances on the propellant with the adjacent tabs 0 to 100 and 100 to
  200. At the float \<open>1e30\<close> every difference rounds to the pressure itself, and at the
  float \<open>3e100\<close> as well.
\<close>

lemma adjacent_limits:
  "tabs adjacent_propellant = [adjacent_low, adjacent_high]"
  "minPressure adjacent_low = 0" "maxPressure adjacent_low = 100"
  "minPressure adjacent_high = 100" "maxPressure adjacent_high = 200"
  by (simp_all add: adjacent_propellant_def adjacent_low_def adjacent_high_def)

lemma adjacent_distances_100:
  "boundary_distance 100 adjacent_low = 0" "boundary_distance 100 adjacent_high = 0"
  using float_sub_exact[of 100 0 100 0] float_sub_exact[of 100 100 0 0]
    float_sub_exact[of 100 200 "- 100" 0]
  by (simp_all add: boundary_distance_def adjacent_limits)

lemma adjacent_distances_250:
  "boundary_distance 250 adjacent_low = 150" "boundary_distance 250 adjacent_high = 50"
  using float_sub_exact[of 250 0 250 0] float_sub_exact[of 250 100 150 0]
    float_sub_exact[of 250 200 50 0]
  by (simp_all add: boundary_distance_def adjacent_limits)

lemma adjacent_distances_1e30:
  "boundary_distance 1000000000000000019884624838656 adjacent_low =
     1000000000000000019884624838656"
  "boundary_distance 1000000000000000019884624838656 adjacent_high =
     1000000000000000019884624838656"
  using float_sub_eval[of 99 1000000000000000019884624838656 0 7105427357601002]
    float_sub_eval[of 99 1000000000000000019884624838656 100 7105427357601002]
    float_sub_eval[of 99 1000000000000000019884624838656 200 7105427357601002]
  by (simp_all add: boundary_distance_def adjacent_limits)

lemma adjacent_distances_3e100:
  "boundary_distance
     29999999999999998534417841067068470485620518868316937526937143621103995064698733443536124752361947136
     adjacent_low =
   29999999999999998534417841067068470485620518868316937526937143621103995064698733443536124752361947136"
  "boundary_distance
     29999999999999998534417841067068470485620518868316937526937143621103995064698733443536124752361947136
     adjacent_high =
   29999999999999998534417841067068470485620518868316937526937143621103995064698733443536124752361947136"
  using float_sub_eval[of 333
      29999999999999998534417841067068470485620518868316937526937143621103995064698733443536124752361947136
      0 7721336384202043]
    float_sub_eval[of 333
      29999999999999998534417841067068470485620518868316937526937143621103995064698733443536124752361947136
      100 7721336384202043]
    float_sub_eval[of 333
      29999999999999998534417841067068470485620518868316937526937143621103995064698733443536124752361947136
      200 7721336384202043]
  by (simp_all add: boundary_distance_def adjacent_limits)

text \<open>
  On the propellant with the adjacent tabs 0 to 100 and 100 to 200: a pressure inside the
  first window, the shared boundary 100, a pressure above every tab, and the float
  \<open>1e30\<close>, where the computed distances of the two tabs are equal and the first tab is
  the one selected.
\<close>

theorem tab_selection_open_window_witness:
  "getCombustionProperties adjacent_propellant 50 = Inr (tab_properties adjacent_low) \<and>
   getCombustionProperties adjacent_propellant 100 = Inr (tab_properties adjacent_low) \<and>
   getCombustionProperties adjacent_propellant 250 = Inr (tab_properties adjacent_high) \<and>
   getCombustionProperties adjacent_propellant 1000000000000000019884624838656 =
     Inr (tab_properties adjacent_low)"
proof -
  have "getCombustionProperties adjacent_propellant 50 = Inr (tab_properties adjacent_low)"
    using tab_selection_open_window[of adjacent_propellant 50]
    by (simp add: adjacent_limits first_such_pair)
  moreover have "getCombustionProperties adjacent_propellant 100 = Inr (tab_properties adjacent_low)"
    using tab_selection_open_window[of adjacent_propellant 100]
    by (simp add: adjacent_limits first_least_pair adjacent_distances_100 sentinel_numeral)
  moreover have "getCombustionProperties adjacent_propellant 250 = Inr (tab_properties adjacent_high)"
    using tab_selection_open_window[of adjacent_propellant 250]
    by (simp add: adjacent_limits first_least_pair adjacent_distances_250 sentinel_numeral)
  moreover have "getCombustionProperties adjacent_propellant 1000000000000000019884624838656 =
      Inr (tab_properties adjacent_low)"
    using tab_selection_open_window[of adjacent_propellant 1000000000000000019884624838656]
    by (simp add: adjacent_limits first_least_pair adjacent_distances_1e30 sentinel_numeral)
  ultimately show ?thesis by simp
qed

text \<open>
  A pressure whose computed distance to every boundary is the float \<open>1e100\<close> or more
  leaves the lookup without a tab: at the float \<open>3e100\<close> the two tabs are there, and the
  first of them is the nearest in the sense of the selection rule.
\<close>

lemma adjacent_far:
  "getCombustionProperties adjacent_propellant
     29999999999999998534417841067068470485620518868316937526937143621103995064698733443536124752361947136 =
   Inl (KeyError ''a'')"
  by (rule getCombustionProperties_far)
    (simp add: adjacent_limits in_window_def adjacent_distances_3e100 sentinel_numeral)

lemma adjacent_far_nearest:
  "first_least
     (boundary_distance
        29999999999999998534417841067068470485620518868316937526937143621103995064698733443536124752361947136)
     (tabs adjacent_propellant) 0"
  by (simp add: adjacent_limits first_least_pair adjacent_distances_3e100)

text \<open>
  Claim C1 as stated fails: the pressure 100 lies in the half-open window from 100 to 200
  of the second tab and in no other half-open window, yet the properties returned are
  those of the first tab, which differ.
\<close>

theorem half_open_window_counterexample:
  "minPressure adjacent_high \<le> 100 \<and> 100 < maxPressure adjacent_high \<and>
   \<not> (minPressure adjacent_low \<le> 100 \<and> 100 < maxPressure adjacent_low) \<and>
   getCombustionProperties adjacent_propellant 100 = Inr (tab_properties adjacent_low) \<and>
   tab_properties adjacent_low \<noteq> tab_properties adjacent_high"
proof -
  have "selected_tab (tabs adjacent_propellant) 100 0"
    by (simp add: selected_tab_def adjacent_limits in_window_def first_least_pair
        adjacent_distances_100 sentinel_numeral)
  then have "getCombustionProperties adjacent_propellant 100 =
      Inr (tab_properties (tabs adjacent_propellant ! 0))"
    by (rule getCombustionProperties_selected)
  then show ?thesis
    by (simp add: adjacent_limits) (simp add: adjacent_low_def adjacent_high_def tab_properties_def)
qed

section \<open>Empty tab list\<close>

text \<open>
  Claim C10. On a propellant without tabs every pressure and Kn query raises:
  \<open>getMinimumValidPressure\<close> and \<open>getMaximumValidPressure\<close> from \<open>min\<close> and \<open>max\<close> of
  an empty list, \<open>getCombustionProperties\<close>, \<open>getBurnRate\<close> and \<open>getCStar\<close> from the
  lookup in the empty dict, \<open>getPressureFromKn\<close> from indexing the empty candidate list.
\<close>

theorem empty_tabs_raise:
  assumes "tabs self = []"
  shows "getMinimumValidPressure self = Inl EmptySequenceError \<and>
         getMaximumValidPressure self = Inl EmptySequenceError \<and>
         getCombustionProperties self pressure = Inl (KeyError ''a'') \<and>
         getBurnRate libm_pow self pressure = Inl (KeyError ''a'') \<and>
         getCStar libm_pow gasConstant self pressure = Inl (KeyError ''a'') \<and>
         getPressureFromKn libm_pow gasConstant self kn = Inl IndexError"
  using assms
  by (simp add: getMinimumValidPressure_def getMaximumValidPressure_def py_min_def py_max_def
      getCombustionProperties_def getBurnRate_def getCStar_def getPressureFromKn_def and_then_def)

theorem empty_tabs_raise_witness:
  "tabs empty_propellant = [] \<and>
   getMinimumValidPressure empty_propellant = Inl EmptySequenceError \<and>
   getMaximumValidPressure empty_propellant = Inl EmptySequenceError \<and>
   getCombustionProperties empty_propellant 100 = Inl (KeyError ''a'') \<and>
   getBurnRate rounded_pow empty_propellant 100 = Inl (KeyError ''a'') \<and>
   getCStar rounded_pow 8314 empty_propellant 100 = Inl (KeyError ''a'') \<and>
   getPressureFromKn rounded_pow 8314 empty_propellant 250 = Inl IndexError"
proof -
  have e: "tabs empty_propellant = []" by (simp add: empty_propellant_def)
  show ?thesis using e empty_tabs_raise[OF e, of 100 rounded_pow 8314 250] by simp
qed

section \<open>Burn rate and characteristic velocity\<close>

text \<open>
  The selection rule chooses a tab whenever some tab has the pressure in its window or a
  boundary at a computed distance below the float \<open>1e100\<close>, and it chooses one tab only.
\<close>

lemma selected_tab_exists:
  assumes "\<exists>tab \<in> set ts. in_window p tab \<or> boundary_distance p tab < double_round (10 ^ 100)"
  shows "\<exists>i. selected_tab ts p i"
proof (cases "\<exists>tab \<in> set ts. in_window p tab")
  case True
  from combustion_loop_window[OF True] show ?thesis
    using True by (auto simp: selected_tab_def)
next
  case False
  then have out: "\<forall>tab \<in> set ts. \<not> in_window p tab" by simp
  with assms have near: "\<exists>tab \<in> set ts. boundary_distance p tab < double_round (10 ^ 100)" by auto
  from combustion_loop_closest[OF out near] show ?thesis
    using False near by (auto simp: selected_tab_def)
qed

lemma selected_tab_unique: "selected_tab ts p i \<Longrightarrow> selected_tab ts p j \<Longrightarrow> i = j"
  by (auto simp: selected_tab_def split: if_splits dest: first_such_unique first_least_unique)

text \<open>With a selected tab, both queries evaluate their formula on the properties of that tab.\<close>

lemma getBurnRate_selected:
  assumes "selected_tab (tabs self) p i"
  shows "getBurnRate libm_pow self p =
           burn_rate libm_pow (a (tabs self ! i)) (n (tabs self ! i)) p"
  using getCombustionProperties_selected[OF assms]
  by (simp add: getBurnRate_def and_then_def tab_properties_def)

lemma getCStar_selected:
  assumes "selected_tab (tabs self) p i"
  shows "getCStar libm_pow R self p =
           characteristic_velocity libm_pow R (k (tabs self ! i)) (t (tabs self ! i))
             (m (tabs self ! i))"
  using getCombustionProperties_selected[OF assms]
  by (simp add: getCStar_def and_then_def tab_properties_def)

text \<open>Values of the correctly rounded power, and of \<open>**\<close> on top of it.\<close>

lemma not_overflow: "0 \<le> x \<Longrightarrow> x < 2 ^ 1023 \<Longrightarrow> \<not> overflow_threshold \<le> x"
  using below_overflow[of x] by simp

lemma rounded_pow_exact:
  assumes "x powr y = of_int N * 2 powi e" and "\<bar>N\<bar> < 2 ^ 53" and "- 1074 \<le> e"
    and "x powr y < 2 ^ 1023"
  shows "rounded_pow x y = Some (x powr y)"
  using double_round_exact[OF assms(1-3)] not_overflow[OF _ assms(4)]
  by (simp add: rounded_pow_def)

lemma rounded_pow_finite:
  assumes "1 \<le> x" and "y \<le> 2" and "x ^ 2 < 2 ^ 1023"
  shows "\<exists>r. rounded_pow x y = Some r"
proof -
  have "x powr y \<le> x powr 2" using assms(1,2) by (intro powr_mono) simp_all
  also have "\<dots> = x ^ 2" using assms(1) by simp
  finally have "x powr y < 2 ^ 1023" using assms(3) by simp
  then have "\<not> overflow_threshold \<le> x powr y" by (intro not_overflow) simp_all
  then show ?thesis by (simp add: rounded_pow_def)
qed

lemma sqrt_values: "sqrt 144 = 12" "sqrt 589824 = 768" "sqrt (1 / 4) = 1 / 2" "sqrt (1 / 262144) = 1 / 512"
  by (rule real_sqrt_unique; simp add: power2_eq_square)+

lemma rounded_pow_values:
  "rounded_pow 144 (1 / 2) = Some 12"
  "rounded_pow 589824 (1 / 2) = Some 768"
  "rounded_pow (1 / 2) 2 = Some (1 / 4)"
  "rounded_pow (1 / 4) (1 / 2) = Some (1 / 2)"
  "rounded_pow (1 / 262144) (1 / 2) = Some (1 / 512)"
  "rounded_pow 134217728 1 = Some 134217728"
  "rounded_pow 268435456 1 = Some 268435456"
  "rounded_pow 8 3 = Some 512"
  using rounded_pow_exact[of 144 "1 / 2" 12 0] rounded_pow_exact[of 589824 "1 / 2" 768 0]
    rounded_pow_exact[of "1 / 2" 2 1 "- 2"] rounded_pow_exact[of "1 / 4" "1 / 2" 1 "- 1"]
    rounded_pow_exact[of "1 / 262144" "1 / 2" 1 "- 9"]
    rounded_pow_exact[of 134217728 1 134217728 0] rounded_pow_exact[of 268435456 1 268435456 0]
    rounded_pow_exact[of 8 3 512 0]
  by (simp_all add: powr_half_sqrt sqrt_values power2_eq_square)

lemma rounded_pow_overflow:
  "rounded_pow 134217728 64 = None"
  by (simp add: rounded_pow_def overflow_threshold_def)

text \<open>
  The power \<open>**\<close>: a complex number for a negative base with a non-integral exponent,
  \<open>OverflowError\<close> when the result is too large, \<open>ZeroDivisionError\<close> for zero to a
  negative power, and the sign of a negative base kept for an odd integral exponent.
\<close>

lemma py_pow_examples:
  "py_pow rounded_pow (- 5) (1 / 4) = Inr PyComplex"
  "py_pow rounded_pow 134217728 64 = Inl OverflowError"
  "py_pow rounded_pow 0 (- 1) = Inl ZeroDivisionError"
  "py_pow rounded_pow (- 8) 3 = Inr (PyFloat (- 512))"
  "py_pow rounded_pow 144 (1 / 2) = Inr (PyFloat 12)"
proof -
  obtain r where "rounded_pow 5 (1 / 4) = Some r"
    using rounded_pow_finite[of 5 "1 / 4"] by auto
  then show "py_pow rounded_pow (- 5) (1 / 4) = Inr PyComplex"
    by (simp add: py_pow_def)
qed (simp_all add: py_pow_def rounded_pow_values rounded_pow_overflow)

text \<open>Both queries at pressures inside a window.\<close>

lemma getBurnRate_example: "getBurnRate rounded_pow adjacent_propellant 144 = Inr (PyFloat 24)"
proof -
  have "selected_tab (tabs adjacent_propellant) 144 1"
    by (simp add: selected_tab_def adjacent_limits first_such_pair in_window_def)
  from getBurnRate_selected[OF this, of rounded_pow]
  have "getBurnRate rounded_pow adjacent_propellant 144 = burn_rate rounded_pow 2 (1 / 2) 144"
    by (simp add: adjacent_limits) (simp add: adjacent_high_def)
  moreover have "finite_float 24 = Inr 24" using finite_float_exact[of 24 24 0] by simp
  ultimately show ?thesis
    by (simp add: burn_rate_def py_pow_examples and_then_def py_scale_def py_mul_def)
qed

lemma dyadic_floats:
  "finite_float 1 = Inr 1" "finite_float 2 = Inr 2" "finite_float 4 = Inr 4"
  "finite_float 64 = Inr 64" "finite_float 128 = Inr 128" "finite_float 384 = Inr 384"
  "finite_float 512 = Inr 512" "finite_float 24942 = Inr 24942"
  "finite_float 196608 = Inr 196608" "finite_float 262144 = Inr 262144"
  "finite_float 524288 = Inr 524288" "finite_float 589824 = Inr 589824"
  "finite_float 134217728 = Inr 134217728" "finite_float 268435456 = Inr 268435456"
  "finite_float (- 262144) = Inr (- 262144)" "finite_float (- 134217728) = Inr (- 134217728)"
  "finite_float (1 / 2) = Inr (1 / 2)" "finite_float (3 / 2) = Inr (3 / 2)"
  "finite_float (3 / 4) = Inr (3 / 4)" "finite_float (1 / 64) = Inr (1 / 64)"
  "finite_float (1 / 65536) = Inr (1 / 65536)" "finite_float (1 / 262144) = Inr (1 / 262144)"
  using finite_float_exact[of 1 1 0] finite_float_exact[of 2 2 0] finite_float_exact[of 4 4 0]
    finite_float_exact[of 64 64 0] finite_float_exact[of 128 128 0]
    finite_float_exact[of 384 384 0] finite_float_exact[of 512 512 0]
    finite_float_exact[of 24942 24942 0] finite_float_exact[of 196608 196608 0]
    finite_float_exact[of 262144 262144 0] finite_float_exact[of 524288 524288 0]
    finite_float_exact[of 589824 589824 0] finite_float_exact[of 134217728 134217728 0]
    finite_float_exact[of 268435456 268435456 0] finite_float_exact[of "- 262144" "- 262144" 0]
    finite_float_exact[of "- 134217728" "- 134217728" 0]
    finite_float_exact[of "1 / 2" 1 "- 1"] finite_float_exact[of "3 / 2" 3 "- 1"]
    finite_float_exact[of "3 / 4" 3 "- 2"] finite_float_exact[of "1 / 64" 1 "- 6"]
    finite_float_exact[of "1 / 65536" 1 "- 16"] finite_float_exact[of "1 / 262144" 1 "- 18"]
  by simp_all

lemma characteristic_velocity_example:
  "characteristic_velocity rounded_pow 8314 3 1536 (4157 / 64) = Inr (PyFloat 512)"
  by (simp add: characteristic_velocity_def and_then_def py_mul_def py_div_def py_add_def
      py_sub_def float_operand_def py_pow_def dyadic_floats rounded_pow_values)

lemma getCStar_example: "getCStar rounded_pow 8314 single_propellant 5 = Inr (PyFloat 512)"
proof -
  have "selected_tab (tabs single_propellant) 5 0"
    by (simp add: selected_tab_def single_propellant_def first_such_def in_window_def
        dyadic_tab_def)
  from getCStar_selected[OF this, of rounded_pow 8314] show ?thesis
    by (simp add: single_propellant_def dyadic_tab_def characteristic_velocity_example)
qed

text \<open>
  Claim C6 fails on the propellant with the two adjacent tabs at the float \<open>3e100\<close>: the
  tab list is not empty and the first tab is the nearest one (lemma
  \<open>adjacent_far_nearest\<close>), but \<open>getBurnRate\<close> raises \<open>KeyError\<close> instead of
  returning the burn rate of that tab. The search for the closest tab starts from the
  finite distance \<open>1e100\<close>, which no tab undercuts, so the lookup is made in the empty dict.
\<close>

theorem getBurnRate_beyond_sentinel:
  "tabs adjacent_propellant \<noteq> [] \<and>
   getBurnRate rounded_pow adjacent_propellant
     29999999999999998534417841067068470485620518868316937526937143621103995064698733443536124752361947136 =
   Inl (KeyError ''a'')"
  by (simp add: getBurnRate_def adjacent_far and_then_def adjacent_limits)

text \<open>
  Claim C7 fails in the same way, at the same input: \<open>getCStar\<close> raises \<open>KeyError\<close>
  instead of returning the characteristic velocity of the nearest tab.
\<close>

theorem getCStar_beyond_sentinel:
  "tabs adjacent_propellant \<noteq> [] \<and>
   getCStar rounded_pow 8314 adjacent_propellant
     29999999999999998534417841067068470485620518868316937526937143621103995064698733443536124752361947136 =
   Inl (KeyError ''a'')"
  by (simp add: getCStar_def adjacent_far and_then_def adjacent_limits)

section \<open>Configuration alerts\<close>

lemma overlap_loop_eq:
  "overlap_loop i tab ps errors =
     errors @ concat (map (\<lambda>(j, other). if i \<noteq> j \<and> overlaps tab other
                                         then [overlap_alert i j] else []) ps)"
  by (induction ps arbitrary: errors) (auto simp: overlaps_def)

lemma enumerate_map_upt: "enumerate 0 xs = map (\<lambda>j. (j, xs ! j)) [0..<length xs]"
  by (rule nth_equalityI) (simp_all add: nth_enumerate_eq)

lemma overlap_loop_enumerate:
  "overlap_loop i tab (enumerate 0 ts) errors =
     errors @ concat (map (\<lambda>j. if i \<noteq> j \<and> overlaps tab (ts ! j) then [overlap_alert i j] else [])
                        [0..<length ts])"
  by (simp add: overlap_loop_eq enumerate_map_upt comp_def)

lemma errors_loop_eq:
  "\<forall>(i, tab) \<in> set ps. tab = ts ! i \<Longrightarrow>
   errors_loop ts ps errors = errors @ concat (map (\<lambda>(i, tab). tab_alerts ts i) ps)"
proof (induction ps arbitrary: errors)
  case Nil
  then show ?case by simp
next
  case (Cons p ps)
  obtain i tab where p: "p = (i, tab)" by (cases p)
  with Cons.prems have tab: "tab = ts ! i" and rest: "\<forall>(i, tab) \<in> set ps. tab = ts ! i" by auto
  show ?case
    unfolding p using tab
    by (simp add: Cons.IH[OF rest] overlap_loop_enumerate tab_alerts_def Let_def)
qed

lemma getErrors_eq_tab_alerts:
  "getErrors self = concat (map (tab_alerts (tabs self)) [0..<length (tabs self)])"
proof -
  have "\<forall>(i, tab) \<in> set (enumerate 0 (tabs self)). tab = tabs self ! i"
    by (auto simp: enumerate_map_upt)
  from errors_loop_eq[OF this, of "[]"] show ?thesis
    by (simp add: getErrors_def enumerate_map_upt comp_def)
qed

text \<open>The texts of the alerts tell the tabs and the kinds of alert apart.\<close>

lemma digit_char_is_digit: "d < 10 \<Longrightarrow> is_digit (digit_char d)"
  by (simp add: is_digit_def digit_char_def nth_Cons' )

lemma digit_char_inj: "d < 10 \<Longrightarrow> e < 10 \<Longrightarrow> digit_char d = digit_char e \<Longrightarrow> d = e"
proof -
  assume "d < 10" "e < 10" "digit_char d = digit_char e"
  moreover have "distinct ''0123456789''" by simp
  moreover have "length ''0123456789'' = 10" by simp
  ultimately show "d = e"
    unfolding digit_char_def by (metis nth_eq_iff_index_eq)
qed

lemma str_nat_digits: "\<forall>c \<in> set (str_nat i). is_digit c"
proof (induction i rule: str_nat.induct)
  case (1 i)
  show ?case
  proof (cases "i < 10")
    case True
    then show ?thesis by (subst str_nat.simps) (simp add: digit_char_is_digit)
  next
    case False
    have "is_digit (digit_char (i mod 10))" by (rule digit_char_is_digit) simp
    with False 1 show ?thesis by (subst str_nat.simps) auto
  qed
qed

lemma str_nat_not_Nil: "str_nat i \<noteq> []"
  by (subst str_nat.simps) simp

lemma str_nat_inj: "str_nat i = str_nat j \<Longrightarrow> i = j"
proof (induction i arbitrary: j rule: str_nat.induct)
  case (1 i)
  show ?case
  proof (cases "i < 10")
    case True
    show ?thesis
    proof (cases "j < 10")
      case j: True
      from 1(2) True j have "digit_char i = digit_char j"
        by (simp add: str_nat.simps[of i] str_nat.simps[of j])
      with True j show ?thesis by (intro digit_char_inj)
    next
      case j: False
      from 1(2) True j have "[digit_char i] = str_nat (j div 10) @ [digit_char (j mod 10)]"
        by (simp add: str_nat.simps[of i] str_nat.simps[of j])
      then show ?thesis using str_nat_not_Nil[of "j div 10"] by simp
    qed
  next
    case False
    show ?thesis
    proof (cases "j < 10")
      case j: True
      from 1(2) False j have "str_nat (i div 10) @ [digit_char (i mod 10)] = [digit_char j]"
        by (simp add: str_nat.simps[of i] str_nat.simps[of j])
      then show ?thesis using str_nat_not_Nil[of "i div 10"] by simp
    next
      case j: False
      from 1(2) False j have
        "str_nat (i div 10) @ [digit_char (i mod 10)] = str_nat (j div 10) @ [digit_char (j mod 10)]"
        by (simp add: str_nat.simps[of i] str_nat.simps[of j])
      then have q: "str_nat (i div 10) = str_nat (j div 10)"
        and r: "digit_char (i mod 10) = digit_char (j mod 10)" by simp_all
      from 1(1)[OF False q] have "i div 10 = j div 10" .
      moreover from r have "i mod 10 = j mod 10" by (intro digit_char_inj) simp_all
      ultimately show ?thesis by (metis div_mult_mod_eq)
    qed
  qed
qed

lemma digits_then_space:
  assumes "str_nat i @ CHR '' '' # xs = str_nat j @ CHR '' '' # ys"
  shows "i = j \<and> xs = ys"
proof -
  have nd: "\<not> is_digit CHR '' ''" by (simp add: is_digit_def)
  have "takeWhile is_digit (str_nat i @ CHR '' '' # xs) = str_nat i"
    using str_nat_digits[of i] nd by (simp add: takeWhile_append2)
  moreover have "takeWhile is_digit (str_nat j @ CHR '' '' # ys) = str_nat j"
    using str_nat_digits[of j] nd by (simp add: takeWhile_append2)
  ultimately have "str_nat i = str_nat j" using assms by simp
  with assms show ?thesis by (auto dest: str_nat_inj)
qed

lemma same_pressures_alert_inj [simp]:
  "same_pressures_alert i = same_pressures_alert j \<longleftrightarrow> i = j"
  by (auto simp: same_pressures_alert_def dest: str_nat_inj)

lemma reversed_limits_alert_inj [simp]:
  "reversed_limits_alert i = reversed_limits_alert j \<longleftrightarrow> i = j"
  by (auto simp: reversed_limits_alert_def dest: str_nat_inj)

lemma overlap_alert_inj [simp]:
  "overlap_alert i j = overlap_alert i' j' \<longleftrightarrow> i = i' \<and> j = j'"
proof
  assume "overlap_alert i j = overlap_alert i' j'"
  then have "str_nat (i + 1) @ CHR '' '' # (''and #'' @ str_nat (j + 1) @ '' have overlapping ranges.'') =
             str_nat (i' + 1) @ CHR '' '' # (''and #'' @ str_nat (j' + 1) @ '' have overlapping ranges.'')"
    by (simp add: overlap_alert_def)
  from digits_then_space[OF this] show "i = i' \<and> j = j'" by (auto dest: str_nat_inj)
qed simp

lemma same_not_reversed [simp]:
  "same_pressures_alert i \<noteq> reversed_limits_alert j"
  "reversed_limits_alert j \<noteq> same_pressures_alert i"
proof -
  have "same_pressures_alert i \<noteq> reversed_limits_alert j"
  proof
    assume "same_pressures_alert i = reversed_limits_alert j"
    then have "str_nat (i + 1) @ CHR '' '' # ''has the same minimum and maximum pressures.'' =
               str_nat (j + 1) @ CHR '' '' # ''has reversed pressure limits.''"
      by (simp add: same_pressures_alert_def reversed_limits_alert_def)
    from digits_then_space[OF this] show False by simp
  qed
  then show "same_pressures_alert i \<noteq> reversed_limits_alert j"
    "reversed_limits_alert j \<noteq> same_pressures_alert i" by auto
qed

lemma overlap_not_single [simp]:
  "overlap_alert i j \<noteq> same_pressures_alert l" "same_pressures_alert l \<noteq> overlap_alert i j"
  "overlap_alert i j \<noteq> reversed_limits_alert l" "reversed_limits_alert l \<noteq> overlap_alert i j"
  by (simp_all add: overlap_alert_def same_pressures_alert_def reversed_limits_alert_def)


lemma count_list_concat_map:
  "count_list (concat (map f xs)) x = sum_list (map (\<lambda>y. count_list (f y) x) xs)"
  by (induction xs) simp_all

lemma sum_list_indicator:
  "sum_list (map (\<lambda>i. if i = j \<and> P i then 1 else 0) [0..<len]) =
     (if j < len \<and> P j then 1 :: nat else 0)"
  by (induction len) auto

lemma count_overlaps_same:
  "count_list (concat (map (\<lambda>j. if Q j then [overlap_alert i j] else []) js))
     (same_pressures_alert l) = 0"
  by (induction js) simp_all

lemma count_overlaps_reversed:
  "count_list (concat (map (\<lambda>j. if Q j then [overlap_alert i j] else []) js))
     (reversed_limits_alert l) = 0"
  by (induction js) simp_all

lemma count_overlaps_overlap:
  "count_list (concat (map (\<lambda>j. if Q j then [overlap_alert i j] else []) [0..<len]))
     (overlap_alert l l') = (if i = l \<and> l' < len \<and> Q l' then 1 else 0)"
proof -
  have "count_list (concat (map (\<lambda>j. if Q j then [overlap_alert i j] else []) [0..<len]))
          (overlap_alert l l') =
        sum_list (map (\<lambda>j. if j = l' \<and> (i = l \<and> Q j) then 1 else 0) [0..<len])"
    unfolding count_list_concat_map
    by (intro arg_cong[where f=sum_list] map_cong refl) auto
  also have "\<dots> = (if l' < len \<and> (i = l \<and> Q l') then 1 else 0)"
    by (rule sum_list_indicator)
  finally show ?thesis by auto
qed

lemma count_tab_alerts_same:
  "count_list (tab_alerts ts i) (same_pressures_alert l) =
     (if i = l \<and> maxPressure (ts ! i) = minPressure (ts ! i) then 1 else 0)"
  by (simp add: tab_alerts_def count_overlaps_same)

lemma count_tab_alerts_reversed:
  "count_list (tab_alerts ts i) (reversed_limits_alert l) =
     (if i = l \<and> maxPressure (ts ! i) < minPressure (ts ! i) then 1 else 0)"
  by (simp add: tab_alerts_def count_overlaps_reversed)

lemma count_tab_alerts_overlap:
  "count_list (tab_alerts ts i) (overlap_alert l l') =
     (if i = l \<and> l' < length ts \<and> i \<noteq> l' \<and> overlaps (ts ! i) (ts ! l') then 1 else 0)"
  by (simp add: tab_alerts_def count_overlaps_overlap)

text \<open>
  Claim C4. \<open>getErrors\<close> returns, tab by tab in stored order, one alert when the tab has
  \<open>maxPressure = minPressure\<close>, one alert when it has \<open>maxPressure < minPressure\<close>, and for
  each other tab one overlap alert when that other tab's \<open>minPressure\<close> is below and its
  \<open>maxPressure\<close> above this tab's \<open>maxPressure\<close>; it returns nothing else. Counted by
  their texts: the degenerate alert of tab \<open>i\<close> occurs once when the tab is degenerate
  and not at all otherwise, likewise the reversed alert, and the overlap alert of the
  ordered pair \<open>i\<close>, \<open>j\<close> occurs once when the indices differ and the test holds. On tabs
  with the limits 0 to 100 and 50 to 150 the result is the one overlap alert; on the
  single tab with the limits 100 and 100 it is the one degenerate alert; on the single tab
  with the limits 100 and 50 it is the one reversed alert.
\<close>

theorem getErrors_alerts:
  "getErrors self = concat (map (tab_alerts (tabs self)) [0..<length (tabs self)]) \<and>
   count_list (getErrors self) (same_pressures_alert i) =
     (if i < length (tabs self) \<and> maxPressure (tabs self ! i) = minPressure (tabs self ! i)
      then 1 else 0) \<and>
   count_list (getErrors self) (reversed_limits_alert i) =
     (if i < length (tabs self) \<and> maxPressure (tabs self ! i) < minPressure (tabs self ! i)
      then 1 else 0) \<and>
   count_list (getErrors self) (overlap_alert i j) =
     (if i < length (tabs self) \<and> j < length (tabs self) \<and> i \<noteq> j \<and>
         minPressure (tabs self ! j) < maxPressure (tabs self ! i) \<and>
         maxPressure (tabs self ! i) < maxPressure (tabs self ! j)
      then 1 else 0) \<and>
   getErrors (self\<lparr>tabs := [tab\<lparr>minPressure := 0, maxPressure := 100\<rparr>,
                            other\<lparr>minPressure := 50, maxPressure := 150\<rparr>]\<rparr>) =
     [overlap_alert 0 1] \<and>
   getErrors (self\<lparr>tabs := [tab\<lparr>minPressure := 100, maxPressure := 100\<rparr>]\<rparr>) =
     [same_pressures_alert 0] \<and>
   getErrors (self\<lparr>tabs := [tab\<lparr>minPressure := 100, maxPressure := 50\<rparr>]\<rparr>) =
     [reversed_limits_alert 0]"
proof -
  let ?ts = "tabs self"
  have 1: "count_list (getErrors self) (same_pressures_alert i) =
     (if i < length ?ts \<and> maxPressure (?ts ! i) = minPressure (?ts ! i) then 1 else 0)"
    unfolding getErrors_eq_tab_alerts count_list_concat_map count_tab_alerts_same
    using sum_list_indicator[of i "\<lambda>i. maxPressure (?ts ! i) = minPressure (?ts ! i)" "length ?ts"]
    by (simp add: eq_commute[of _ i] cong: if_cong)
  have 2: "count_list (getErrors self) (reversed_limits_alert i) =
     (if i < length ?ts \<and> maxPressure (?ts ! i) < minPressure (?ts ! i) then 1 else 0)"
    unfolding getErrors_eq_tab_alerts count_list_concat_map count_tab_alerts_reversed
    using sum_list_indicator[of i "\<lambda>i. maxPressure (?ts ! i) < minPressure (?ts ! i)" "length ?ts"]
    by (simp add: eq_commute[of _ i] cong: if_cong)
  have 3: "count_list (getErrors self) (overlap_alert i j) =
     (if i < length ?ts \<and> j < length ?ts \<and> i \<noteq> j \<and>
         minPressure (?ts ! j) < maxPressure (?ts ! i) \<and> maxPressure (?ts ! i) < maxPressure (?ts ! j)
      then 1 else 0)"
    unfolding getErrors_eq_tab_alerts count_list_concat_map count_tab_alerts_overlap
    using sum_list_indicator[of i "\<lambda>i. j < length ?ts \<and> i \<noteq> j \<and> overlaps (?ts ! i) (?ts ! j)" "length ?ts"]
    by (simp add: eq_commute[of _ i] overlaps_def cong: if_cong)
  have 4: "getErrors (self\<lparr>tabs := [tab\<lparr>minPressure := 0, maxPressure := 100\<rparr>,
                            other\<lparr>minPressure := 50, maxPressure := 150\<rparr>]\<rparr>) =
     [overlap_alert 0 1] \<and>
   getErrors (self\<lparr>tabs := [tab\<lparr>minPressure := 100, maxPressure := 100\<rparr>]\<rparr>) =
     [same_pressures_alert 0] \<and>
   getErrors (self\<lparr>tabs := [tab\<lparr>minPressure := 100, maxPressure := 50\<rparr>]\<rparr>) =
     [reversed_limits_alert 0]"
    by (simp add: getErrors_eq_tab_alerts tab_alerts_def overlaps_def upt_rec numeral_2_eq_2)
  from getErrors_eq_tab_alerts[of self] 1 2 3 4 show ?thesis by (intro conjI) simp_all
qed

text \<open>The description of the overlap alert on the first example, as the source formats it.\<close>

theorem getErrors_alerts_witness:
  "getErrors \<lparr>name = ''overlapping'', density = 1000,
              tabs = [adjacent_low, adjacent_high\<lparr>minPressure := 50, maxPressure := 150\<rparr>]\<rparr> =
     [SimAlert ERROR VALUE ''Tabs #1 and #2 have overlapping ranges.'' ''Propellant'']"
  using conjunct1[OF getErrors_alerts[of "\<lparr>name = ''overlapping'', density = 1000,
              tabs = [adjacent_low, adjacent_high\<lparr>minPressure := 50, maxPressure := 150\<rparr>]\<rparr>"]]
  by (simp add: tab_alerts_def overlaps_def upt_rec numeral_2_eq_2 overlap_alert_def
      str_nat.simps digit_char_def adjacent_low_def adjacent_high_def)

section \<open>Pressure from Kn\<close>

lemma py_min_Min: "xs \<noteq> [] \<Longrightarrow> py_min xs = Inr (Min (set xs))"
proof (cases xs)
  case (Cons x rest)
  have "fold min rest x = Min (set (x # rest))" by (rule Min.set_eq_fold[symmetric])
  then show ?thesis using Cons by (simp add: py_min_def)
qed simp

lemma py_max_Max: "xs \<noteq> [] \<Longrightarrow> py_max xs = Inr (Max (set xs))"
proof (cases xs)
  case (Cons x rest)
  have "fold max rest x = Max (set (x # rest))" by (rule Max.set_eq_fold[symmetric])
  then show ?thesis using Cons by (simp add: py_max_def)
qed simp

lemma owns_minimum:
  assumes "tab \<in> set ts"
  shows "minPressure tab = Min (set (map minPressure ts)) \<longleftrightarrow>
         (\<forall>other \<in> set ts. minPressure tab \<le> minPressure other)"
proof -
  have "Min (minPressure ` set ts) = minPressure tab \<longleftrightarrow>
          minPressure tab \<in> minPressure ` set ts \<and> (\<forall>x \<in> minPressure ` set ts. minPressure tab \<le> x)"
    using assms by (intro Min_eq_iff) auto
  then show ?thesis using assms by (auto simp: eq_commute)
qed

lemma owns_maximum:
  assumes "tab \<in> set ts"
  shows "maxPressure tab = Max (set (map maxPressure ts)) \<longleftrightarrow>
         (\<forall>other \<in> set ts. maxPressure other \<le> maxPressure tab)"
proof -
  have "Max (maxPressure ` set ts) = maxPressure tab \<longleftrightarrow>
          maxPressure tab \<in> maxPressure ` set ts \<and> (\<forall>x \<in> maxPressure ` set ts. x \<le> maxPressure tab)"
    using assms by (intro Max_eq_iff) auto
  then show ?thesis using assms by (auto simp: eq_commute)
qed

lemma valid_range:
  assumes "tab \<in> set (tabs self)"
  shows "getMinimumValidPressure self = Inr (Min (set (map minPressure (tabs self))))"
    and "getMaximumValidPressure self = Inr (Max (set (map maxPressure (tabs self))))"
proof -
  have ne: "map minPressure (tabs self) \<noteq> []" "map maxPressure (tabs self) \<noteq> []"
    using assms by auto
  show "getMinimumValidPressure self = Inr (Min (set (map minPressure (tabs self))))"
    unfolding getMinimumValidPressure_def by (rule py_min_Min[OF ne(1)])
  show "getMaximumValidPressure self = Inr (Max (set (map maxPressure (tabs self))))"
    unfolding getMaximumValidPressure_def by (rule py_max_Max[OF ne(2)])
qed

text \<open>
  One step of the loop, for a tab of the propellant: a float pressure is tested and kept
  as a candidate when it fails the tests, a complex pressure raises \<open>TypeError\<close>, and an
  exception of the arithmetic is passed on.
\<close>

lemma pressure_loop_step:
  assumes "tab \<in> set (tabs self)"
    and "tab_pressure libm_pow R kn (density self) tab = Inr (PyFloat tp)"
  shows "pressure_loop libm_pow R self kn (tab # rest) acc =
           (if accepted (tabs self) tab tp then Inr tp
            else pressure_loop libm_pow R self kn rest (acc @ [(candidate_distance tp tab, tp)]))"
  unfolding pressure_loop.simps assms(2) valid_range[OF assms(1)] and_then_def sum.case
    py_number.case owns_minimum[OF assms(1)] owns_maximum[OF assms(1)]
    candidate_distance_def[symmetric]
  by (auto simp: accepted_def)

lemma pressure_loop_complex:
  assumes "tab \<in> set (tabs self)"
    and "tab_pressure libm_pow R kn (density self) tab = Inr PyComplex"
  shows "pressure_loop libm_pow R self kn (tab # rest) acc = Inl TypeError"
  unfolding pressure_loop.simps assms(2) valid_range[OF assms(1)] and_then_def sum.case
    py_number.case
  by simp

lemma pressure_loop_raise:
  assumes "tab_pressure libm_pow R kn (density self) tab = Inl e"
  shows "pressure_loop libm_pow R self kn (tab # rest) acc = Inl e"
  unfolding pressure_loop.simps assms and_then_def sum.case by (rule refl)









text \<open>
  When the computation fails for a tab and no earlier tab is accepted, the call raises:
  the exception of the arithmetic, or \<open>TypeError\<close> when the pressure is a complex number.
\<close>

lemma getPressureFromKn_raises:
  assumes "tabs self = pre @ tab # post"
    and "\<forall>x \<in> set pre. tab_pressure libm_pow R kn (density self) x = Inr (PyFloat (press x)) \<and>
           \<not> accepted (tabs self) x (press x)"
  shows "tab_pressure libm_pow R kn (density self) tab = Inl e \<Longrightarrow>
           getPressureFromKn libm_pow R self kn = Inl e"
    and "tab_pressure libm_pow R kn (density self) tab = Inr PyComplex \<Longrightarrow>
           getPressureFromKn libm_pow R self kn = Inl TypeError"
proof -
  have mem: "tab \<in> set (tabs self)" using assms(1) by simp
  have skip: "set xs \<subseteq> set pre \<Longrightarrow>
      \<exists>acc'. pressure_loop libm_pow R self kn (xs @ tab # post) acc =
             pressure_loop libm_pow R self kn (tab # post) acc'" for xs acc
  proof (induction xs arbitrary: acc)
    case Nil
    then show ?case by auto
  next
    case (Cons x xs)
    have x: "x \<in> set (tabs self)" using Cons.prems assms(1) by auto
    have tp: "tab_pressure libm_pow R kn (density self) x = Inr (PyFloat (press x))"
      and rej: "\<not> accepted (tabs self) x (press x)"
      using Cons.prems assms(2) by auto
    have "pressure_loop libm_pow R self kn ((x # xs) @ tab # post) acc =
        pressure_loop libm_pow R self kn (xs @ tab # post)
          (acc @ [(candidate_distance (press x) x, press x)])"
      using pressure_loop_step[OF x tp] rej by simp
    with Cons.IH[of "acc @ [(candidate_distance (press x) x, press x)]"] Cons.prems
    show ?case by auto
  qed
  from skip[of pre "[]"] obtain acc' where
    loop: "getPressureFromKn libm_pow R self kn =
           pressure_loop libm_pow R self kn (tab # post) acc'"
    unfolding getPressureFromKn_def assms(1) by auto
  show "tab_pressure libm_pow R kn (density self) tab = Inl e \<Longrightarrow>
           getPressureFromKn libm_pow R self kn = Inl e"
    unfolding loop by (rule pressure_loop_raise)
  show "tab_pressure libm_pow R kn (density self) tab = Inr PyComplex \<Longrightarrow>
           getPressureFromKn libm_pow R self kn = Inl TypeError"
    unfolding loop by (rule pressure_loop_complex[OF mem])
qed






text \<open>
  A negative Kn with the exponent \<open>1 / (1 - 1 / 4)\<close>, which is not integral: the pressure
  is a complex number and the comparison with \<open>maxPressure\<close> raises \<open>TypeError\<close>.
\<close>

lemma four_thirds: "finite_float (4 / 3) = Inr (6004799503160661 / 4503599627370496)"
  using double_round_eval[of 0 "4 / 3" 6004799503160661] below_overflow[of "4 / 3"]
  by (simp add: finite_float_def)

lemma getPressureFromKn_negative_kn:
  "getPressureFromKn rounded_pow 8314 quarter_propellant (- 256) = Inl TypeError"
proof -
  have ts: "tabs quarter_propellant = [] @ dyadic_tab\<lparr>maxPressure := 100, n := 1 / 4\<rparr> # []"
    "density quarter_propellant = 1024"
    by (simp_all add: quarter_propellant_def)
  obtain r where r: "rounded_pow 134217728 (6004799503160661 / 4503599627370496) = Some r"
    using rounded_pow_finite[of 134217728 "6004799503160661 / 4503599627370496"] by auto
  have "tab_pressure rounded_pow 8314 (- 256) 1024 (dyadic_tab\<lparr>maxPressure := 100, n := 1 / 4\<rparr>) =
      Inr PyComplex"
    by (simp add: tab_pressure_def Let_def dyadic_tab_def and_then_def py_mul_def py_div_def
        py_add_def py_sub_def float_operand_def py_pow_def dyadic_floats rounded_pow_values
        four_thirds r)
  then show ?thesis
    by (intro getPressureFromKn_raises(2)[OF ts(1)]) (simp_all add: ts(2))
qed

section \<open>Perimeter query\<close>

lemma index_unique:
  fixes W :: nat
  assumes "c < W" "cc < W"
  shows "r * W + c = cr * W + cc \<longleftrightarrow> r = cr \<and> c = cc"
proof
  assume eq: "r * W + c = cr * W + cc"
  have "(r * W + c) div W = r" "(cr * W + cc) div W = cr" using assms by simp_all
  with eq have r: "r = cr" by simp
  with eq show "r = cr \<and> c = cc" by simp
qed simp

lemma element_at_single_one:
  assumes "r < H" "c < W" "cc < W"
  shows "element_at (single_one_raster H W cr cc) r c = (if r = cr \<and> c = cc then 1 else 0)"
proof -
  have "r * W + c < r * W + W" using assms by simp
  also have "\<dots> = Suc r * W" by simp
  also have "\<dots> \<le> H * W" using assms(1) by (intro mult_le_mono1) simp
  finally have len: "r * W + c < H * W" .
  show ?thesis
    using len index_unique[OF assms(2,3), of r cr]
    by (auto simp: element_at_def single_one_raster_def nth_list_update)
qed

lemma half_diagonal: "sqrt ((1 / 2)\<^sup>2 + (1 / 2)\<^sup>2) = sqrt 2 / 2"
proof -
  have "(1 / 2 :: real)\<^sup>2 + (1 / 2)\<^sup>2 = 2 / 2\<^sup>2" by (simp add: power2_eq_square)
  then have "sqrt ((1 / 2)\<^sup>2 + (1 / 2)\<^sup>2) = sqrt (2 / 2\<^sup>2)" by simp
  also have "\<dots> = sqrt 2 / 2" by (simp only: real_sqrt_divide real_sqrt_abs)
  finally show ?thesis .
qed

lemma cell_perimeter_single_one:
  assumes "Suc r0 < H" "Suc c0 < W" "cr < H" "cc < W"
  shows "cell_perimeter (single_one_raster H W cr cc) (1 / 2) r0 c0 =
           (if (r0 = cr \<or> Suc r0 = cr) \<and> (c0 = cc \<or> Suc c0 = cc) then sqrt 2 / 2 else 0)"
proof -
  have r: "r0 < H" "r0 + 1 < H" and c: "c0 < W" "c0 + 1 < W" using assms by simp_all
  show ?thesis
    unfolding cell_perimeter_def
      element_at_single_one[OF r(1) c(1) assms(4)] element_at_single_one[OF r(1) c(2) assms(4)]
      element_at_single_one[OF r(2) c(1) assms(4)] element_at_single_one[OF r(2) c(2) assms(4)]
    using half_diagonal
    by (auto simp: Let_def segment_length_def interpolate_def power2_eq_square)
qed


lemma sum_list_single:
  fixes x :: real
  shows "sum_list (map (\<lambda>i. if i = j then x else 0) [0..<len]) = (if j < len then x else 0)"
  by (induction len) auto

lemma sum_list_zero: "sum_list (map (\<lambda>i. 0 :: real) xs) = 0"
  by (induction xs) auto

lemma get_perimeter_single_one:
  assumes "2 \<le> H" "2 \<le> W" "cr < H" "cc < W"
  shows "get_perimeter (single_one_raster H W cr cc) (1 / 2) =
           sum_list (map (\<lambda>r0. sum_list (map (\<lambda>c0.
               if (r0 = cr \<or> Suc r0 = cr) \<and> (c0 = cc \<or> Suc c0 = cc) then sqrt 2 / 2 else 0)
             [0..<W - 1])) [0..<H - 1])"
proof -
  have sh: "shape (single_one_raster H W cr cc) ! 0 = H" "shape (single_one_raster H W cr cc) ! 1 = W"
    by (simp_all add: single_one_raster_def)
  have "cell_perimeter (single_one_raster H W cr cc) (1 / 2) r0 c0 =
           (if (r0 = cr \<or> Suc r0 = cr) \<and> (c0 = cc \<or> Suc c0 = cc) then sqrt 2 / 2 else 0)"
    if "r0 \<in> set [0..<H - 1]" "c0 \<in> set [0..<W - 1]" for r0 c0
    using that assms by (intro cell_perimeter_single_one) auto
  then show ?thesis
    unfolding get_perimeter_def sh
    by (intro arg_cong[where f=sum_list] map_cong refl) simp
qed

text \<open>
  Claim C8. For a raster of zeros with at least two rows and two columns and exactly one
  corner element set to one, the perimeter query at level one half returns
  \<open>sqrt 2 / 2\<close>. The contour tracer is the one modelled from the spec.
\<close>

theorem corner_perimeter:
  assumes "2 \<le> H" and "2 \<le> W"
    and "cr = 0 \<or> cr = H - 1" and "cc = 0 \<or> cc = W - 1"
  shows "find_perimeter (single_one_raster H W cr cc) (1 / 2) = Inr (sqrt 2 / 2)"
proof -
  have cr: "cr < H" and cc: "cc < W" using assms by auto
  obtain i where i: "i < H - 1" "\<And>r0. r0 < H - 1 \<Longrightarrow> (r0 = cr \<or> Suc r0 = cr) \<longleftrightarrow> r0 = i"
  proof (cases "cr = 0")
    case True
    show ?thesis by (rule that[of 0]) (use True assms in auto)
  next
    case False
    with assms(3) have "cr = H - 1" by simp
    show ?thesis by (rule that[of "H - 2"]) (use \<open>cr = H - 1\<close> assms in auto)
  qed
  obtain j where j: "j < W - 1" "\<And>c0. c0 < W - 1 \<Longrightarrow> (c0 = cc \<or> Suc c0 = cc) \<longleftrightarrow> c0 = j"
  proof (cases "cc = 0")
    case True
    show ?thesis by (rule that[of 0]) (use True assms in auto)
  next
    case False
    with assms(4) have "cc = W - 1" by simp
    show ?thesis by (rule that[of "W - 2"]) (use \<open>cc = W - 1\<close> assms in auto)
  qed
  have inner: "sum_list (map (\<lambda>c0.
               if (r0 = cr \<or> Suc r0 = cr) \<and> (c0 = cc \<or> Suc c0 = cc) then sqrt 2 / 2 else 0)
             [0..<W - 1]) = (if r0 = i then sqrt 2 / 2 else 0)" if "r0 < H - 1" for r0
  proof -
    have "sum_list (map (\<lambda>c0.
               if (r0 = cr \<or> Suc r0 = cr) \<and> (c0 = cc \<or> Suc c0 = cc) then sqrt 2 / 2 else 0)
             [0..<W - 1]) =
          sum_list (map (\<lambda>c0. if c0 = j then (if r0 = i then sqrt 2 / 2 else 0) else 0) [0..<W - 1])"
      using i(2)[OF that] j(2) by (intro arg_cong[where f=sum_list] map_cong refl) auto
    also have "\<dots> = (if r0 = i then sqrt 2 / 2 else 0)"
      using j(1) by (simp only: sum_list_single if_True)
    finally show ?thesis .
  qed
  have "get_perimeter (single_one_raster H W cr cc) (1 / 2) =
          sum_list (map (\<lambda>r0. if r0 = i then sqrt 2 / 2 else 0) [0..<H - 1])"
    unfolding get_perimeter_single_one[OF assms(1,2) cr cc]
    using inner by (intro arg_cong[where f=sum_list] map_cong refl) auto
  also have "\<dots> = sqrt 2 / 2" using i(1) by (simp only: sum_list_single if_True)
  finally have "get_perimeter (single_one_raster H W cr cc) (1 / 2) = sqrt 2 / 2" .
  then show ?thesis
    using assms(1,2)
    by (simp add: find_perimeter_def shape_at_def ndim_def and_then_def single_one_raster_def)
qed

text \<open>The example of the docstring: three rows, three columns, the one at row 0, column 0.\<close>

theorem corner_perimeter_witness:
  "find_perimeter \<lparr>shape = [3, 3], elements = [1, 0, 0, 0, 0, 0, 0, 0, 0]\<rparr> (1 / 2) =
     Inr (sqrt 2 / 2)"
proof -
  have "single_one_raster 3 3 0 0 = \<lparr>shape = [3, 3], elements = [1, 0, 0, 0, 0, 0, 0, 0, 0]\<rparr>"
    by (simp add: single_one_raster_def numeral_eq_Suc)
  then show ?thesis using corner_perimeter[of 3 3 0 0] by simp
qed

text \<open>
  Claim C3 says that the query fails with the dimension error whenever the rank is not 2.
  On an array of rank 1 with three elements the size check reads \<open>shape[1]\<close> before
  the rank is checked, and the call raises \<open>IndexError\<close> instead of the
  \<open>ValueError\<close> with the text \<open>Only 2D arrays are supported.\<close>
\<close>

theorem find_perimeter_rank_one:
  "find_perimeter \<lparr>shape = [3], elements = [0, 0, 1]\<rparr> (1 / 2) = Inl IndexError"
  by (simp add: find_perimeter_def shape_at_def and_then_def)

text \<open>
  Where the guards do what the claim says: a rank of 2 with a dimension below 2 gives the
  size error, a rank above 2 with both leading dimensions at least 2 the dimension error.
\<close>

lemma find_perimeter_guards:
  "(length (shape img) = 2 \<and> (shape img ! 0 < 2 \<or> shape img ! 1 < 2) \<longrightarrow>
      find_perimeter img level = Inl (ValueError ''Input array must be at least 2x2.'')) \<and>
   (2 < length (shape img) \<and> 2 \<le> shape img ! 0 \<and> 2 \<le> shape img ! 1 \<longrightarrow>
      find_perimeter img level = Inl (ValueError ''Only 2D arrays are supported.''))"
  by (auto simp: find_perimeter_def shape_at_def and_then_def ndim_def)


end
